(* ===== verification/Prelude.thy ===== *)
theory Prelude
  imports "HOL-Library.Word"
begin

unbundle bit_operations_syntax

text \<open>
  Shared vocabulary of the development: the C integer types at their widths, the outcome
  type of kernel code, its sequencing operator, byte-addressed memory with 32- and 64-bit
  accesses, and the list and word lemmas that the component theories use.

  Kernel code does not only return: it can stop the machine with \<open>panic(...)\<close>
  (kernel/printf.c), run into behaviour that C leaves undefined (an index outside an array), or
  spin on a lock another CPU holds.  Each of these is a value of the outcome type, so every
  early exit of the source is a branch of the model.
\<close>

type_synonym u8 = "8 word"
type_synonym u16 = "16 word"
type_synonym u32 = "32 word"
type_synonym u64 = "64 word"
type_synonym i32 = "32 word" \<comment> \<open>C's int: compared with \<open><s\<close>, read by \<open>sint\<close>\<close>

datatype 'a res =
    Ok 'a
  | Panic string   \<comment> \<open>panic(msg): the kernel halts\<close>
  | Undef          \<comment> \<open>an access outside its object\<close>
  | Spins          \<comment> \<open>spins until another CPU changes the state\<close>

primrec kbind :: "'a res \<Rightarrow> ('a \<Rightarrow> 'b res) \<Rightarrow> 'b res" where
  "kbind (Ok x) f = f x"
| "kbind (Panic e) f = Panic e"
| "kbind Undef f = Undef"
| "kbind Spins f = Spins"

named_theorems lock_simps \<open>acquire and release pairs on a machine that can lock\<close>
named_theorems mem_simps \<open>reads over writes in byte memory\<close>

lemma kbind_assoc: "kbind (kbind m f) g = kbind m (\<lambda>x. kbind (f x) g)"
  by (cases m) simp_all

lemma kbind_Ok_right [simp]: "kbind m Ok = m"
  by (cases m) simp_all

lemma kbind_eq_Ok: "kbind m f = Ok y \<longleftrightarrow> (\<exists>x. m = Ok x \<and> f x = Ok y)"
  by (cases m) simp_all

lemma kbind_OkE:
  assumes "kbind m f = Ok y"
  obtains x where "m = Ok x" and "f x = Ok y"
  using assms by (auto simp: kbind_eq_Ok)

lemma kbind_cong [fundef_cong]:
  "m = m' \<Longrightarrow> (\<And>x. m' = Ok x \<Longrightarrow> f x = g x) \<Longrightarrow> kbind m f = kbind m' g"
  by (cases m') simp_all

lemma if_Ok_eq: "(if b then Ok x else Ok y) = Ok (if b then x else y)"
  by simp

subsection \<open>Lists of indices\<close>

lemma find_upt_Some_iff:
  "find P [i..<n] = Some k \<longleftrightarrow> i \<le> k \<and> k < n \<and> P k \<and> (\<forall>j. i \<le> j \<and> j < k \<longrightarrow> \<not> P j)"
proof (induction "n - i" arbitrary: i)
  case 0
  then show ?case by auto
next
  case (Suc d)
  then have "i < n" by simp
  then have *: "[i..<n] = i # [Suc i..<n]" by (simp add: upt_conv_Cons)
  have IH: "find P [Suc i..<n] = Some k \<longleftrightarrow>
      Suc i \<le> k \<and> k < n \<and> P k \<and> (\<forall>j. Suc i \<le> j \<and> j < k \<longrightarrow> \<not> P j)"
    using Suc by auto
  show ?case
  proof (cases "P i")
    case True
    then show ?thesis using \<open>i < n\<close> by (auto simp: *)
  next
    case False
    then show ?thesis unfolding * using IH
      by (auto simp: Suc_le_eq) (metis le_neq_implies_less)
  qed
qed

lemma find_upt_None_iff: "find P [i..<n] = None \<longleftrightarrow> (\<forall>j. i \<le> j \<and> j < n \<longrightarrow> \<not> P j)"
  by (auto simp: find_None_iff)

subsection \<open>Words\<close>

lemma unat_of_nat_small: "n < 2 ^ LENGTH('a) \<Longrightarrow> unat (of_nat n :: 'a::len word) = n"
  by (simp add: unsigned_of_nat take_bit_nat_eq_self_iff)

lemma word_diff_eq_of_nat: "a - b = (of_nat n :: 'a::len word) \<longleftrightarrow> a = b + of_nat n"
  by (auto simp: algebra_simps)

lemma of_nat_neq_u64: "i < n \<Longrightarrow> n < 2 ^ 64 \<Longrightarrow> (of_nat i :: u64) \<noteq> of_nat n"
  using unat_of_nat_small [where 'a = 64, of i] unat_of_nat_small [where 'a = 64, of n] by auto


lemma sint_nonneg_uint: "0 \<le> sint (n :: 'a::len word) \<Longrightarrow> sint n = uint n"
proof -
  assume "0 \<le> sint n"
  moreover have "sint n < 2 ^ LENGTH('a)"
    using sint_lt [of n] by (rule order_less_le_trans) (simp add: power_increasing)
  ultimately show ?thesis by (simp add: uint_sint take_bit_int_eq_self)
qed

lemma nat_sint_unat: "0 \<le> sint (n :: 'a::len word) \<Longrightarrow> nat (sint n) = unat n"
  by (simp add: sint_nonneg_uint)

lemma sint_of_nat_small: "n < 2 ^ 31 \<Longrightarrow> sint (of_nat n :: i32) = int n"
  by (simp add: signed_of_nat signed_take_bit_int_eq_self)

end
