(* ===== verification/Spinlock.thy ===== *)
theory Spinlock
  imports Prelude
begin

text \<open>
  Kernel/spinlock.c: the CPUs with their interrupt nesting, the spin locks, and the machine
  state (CPUs, locks, physical memory, page allocator head) that every component above shares.

  The first part gives each function as one step of the hart \<open>h\<close> that runs it; \<open>acquire\<close> on
  a lock that another hart holds is the outcome \<open>Spins\<close>.  The second part splits
  \<open>acquire\<close> and \<open>release\<close> into their single accesses to the shared lock word and interleaves
  the harts arbitrarily; mutual exclusion is proved there, and the one-step functions are runs of
  that interleaved machine.
\<close>

datatype lockid =
    PidLock | TidLock | WaitLock | BsemTableLock
  | BsemLock nat | ProcLock nat
  | KmemLock | TicksLock | FtableLock | ItableLock | BcacheLock | LogLock | VdiskLock
  | ConsLock | UartTxLock | PrLock | PipeLock u64 | BufSleepLk nat | InodeSleepLk nat

record spinlock =
  lk_locked :: bool
  lk_name :: string
  lk_cpu :: "nat option"

record cpu =
  cpu_proc :: "nat option"
  cpu_thread :: "(nat \<times> nat) option"
  cpu_noff :: nat
  cpu_intena :: bool
  cpu_sie :: bool     \<comment> \<open>the interrupt-enable bit of sstatus\<close>

record machine =
  cpus :: "nat \<Rightarrow> cpu"
  locks :: "lockid \<Rightarrow> spinlock"
  pmem :: "u64 \<Rightarrow> u8"
  freelist :: u64     \<comment> \<open>kmem.freelist\<close>
  kend :: u64         \<comment> \<open>the linker symbol end[]: first address after the kernel\<close>

definition initlock :: "lockid \<Rightarrow> string \<Rightarrow> machine \<Rightarrow> machine" where
  "initlock lk name m = m\<lparr>locks := (locks m)(lk := \<lparr>lk_locked = False, lk_name = name, lk_cpu = None\<rparr>)\<rparr>"

definition intr_get :: "nat \<Rightarrow> machine \<Rightarrow> bool" where
  "intr_get h m = cpu_sie (cpus m h)"

definition upd_cpu :: "nat \<Rightarrow> (cpu \<Rightarrow> cpu) \<Rightarrow> machine \<Rightarrow> machine" where
  "upd_cpu h f m = m\<lparr>cpus := (cpus m)(h := f (cpus m h))\<rparr>"

definition intr_on :: "nat \<Rightarrow> machine \<Rightarrow> machine" where
  "intr_on h m = upd_cpu h (cpu_sie_update (\<lambda>_. True)) m"

definition intr_off :: "nat \<Rightarrow> machine \<Rightarrow> machine" where
  "intr_off h m = upd_cpu h (cpu_sie_update (\<lambda>_. False)) m"

definition holding :: "nat \<Rightarrow> lockid \<Rightarrow> machine \<Rightarrow> bool" where
  "holding h lk m = (lk_locked (locks m lk) \<and> lk_cpu (locks m lk) = Some h)"

definition push_off :: "nat \<Rightarrow> machine \<Rightarrow> machine" where
  "push_off h m =
    (let old = intr_get h m;
         m = intr_off h m;
         m = (if cpu_noff (cpus m h) = 0 then upd_cpu h (cpu_intena_update (\<lambda>_. old)) m else m)
     in upd_cpu h (cpu_noff_update (\<lambda>n. n + 1)) m)"

definition pop_off :: "nat \<Rightarrow> machine \<Rightarrow> machine res" where
  "pop_off h m =
    (if intr_get h m then Panic ''pop_off - interruptible''
     else if cpu_noff (cpus m h) < 1 then Panic ''pop_off''
     else let m = upd_cpu h (cpu_noff_update (\<lambda>n. n - 1)) m
          in Ok (if cpu_noff (cpus m h) = 0 \<and> cpu_intena (cpus m h) then intr_on h m else m))"

definition upd_lock :: "lockid \<Rightarrow> (spinlock \<Rightarrow> spinlock) \<Rightarrow> machine \<Rightarrow> machine" where
  "upd_lock lk f m = m\<lparr>locks := (locks m)(lk := f (locks m lk))\<rparr>"

definition acquire :: "nat \<Rightarrow> lockid \<Rightarrow> machine \<Rightarrow> machine res" where
  "acquire h lk m =
    (let m = push_off h m
     in if holding h lk m then Panic ''acquire''
        else if lk_locked (locks m lk) then Spins
        else let m = upd_lock lk (lk_locked_update (\<lambda>_. True)) m
             in Ok (upd_lock lk (lk_cpu_update (\<lambda>_. Some h)) m))"

definition release :: "nat \<Rightarrow> lockid \<Rightarrow> machine \<Rightarrow> machine res" where
  "release h lk m =
    (if \<not> holding h lk m then Panic ''release''
     else let m = upd_lock lk (lk_cpu_update (\<lambda>_. None)) m;
              m = upd_lock lk (lk_locked_update (\<lambda>_. False)) m
          in pop_off h m)"

subsection \<open>Locking as seen by a caller\<close>

text \<open>
  On a machine where \<open>lk\<close> is free, \<open>acquire\<close> yields \<open>locked_by h lk m\<close> and the
  matching \<open>release\<close> gives the machine back, up to the saved interrupt flag that
  \<open>push_off\<close> rewrites when no lock is held (\<open>touch\<close>).
\<close>

definition cpu_ok :: "nat \<Rightarrow> machine \<Rightarrow> bool" where
  "cpu_ok h m = (0 < cpu_noff (cpus m h) \<longrightarrow> \<not> cpu_sie (cpus m h))"

definition lock_free :: "lockid \<Rightarrow> machine \<Rightarrow> bool" where
  "lock_free lk m = (\<not> lk_locked (locks m lk) \<and> lk_cpu (locks m lk) = None)"

definition touch :: "nat \<Rightarrow> machine \<Rightarrow> machine" where
  "touch h m = upd_cpu h (\<lambda>c. c\<lparr>cpu_intena := if cpu_noff c = 0 then cpu_sie c else cpu_intena c\<rparr>) m"

definition locked_by :: "nat \<Rightarrow> lockid \<Rightarrow> machine \<Rightarrow> machine" where
  "locked_by h lk m = upd_lock lk (\<lambda>l. l\<lparr>lk_locked := True, lk_cpu := Some h\<rparr>) (push_off h m)"

lemma machine_eqI:
  fixes m n :: machine
  assumes "\<And>h. cpus m h = cpus n h" and "\<And>lk. locks m lk = locks n lk"
    and "pmem m = pmem n" and "freelist m = freelist n" and "kend m = kend n"
  shows "m = n"
  using assms by (auto intro!: machine.equality ext)

lemma push_off_unfold:
  "push_off h m = upd_cpu h (\<lambda>c. c\<lparr>cpu_noff := cpu_noff c + 1, cpu_sie := False,
      cpu_intena := if cpu_noff c = 0 then cpu_sie c else cpu_intena c\<rparr>) m"
  by (auto simp: push_off_def Let_def intr_off_def intr_get_def upd_cpu_def intro!: machine_eqI)

lemma push_off_locks [simp]: "locks (push_off h m) = locks m"
  by (simp add: push_off_unfold upd_cpu_def)

lemma holding_free [simp]: "lock_free lk m \<Longrightarrow> \<not> holding h lk m"
  by (simp add: holding_def lock_free_def)

lemma acquire_free [lock_simps]: "lock_free lk m \<Longrightarrow> acquire h lk m = Ok (locked_by h lk m)"
  by (auto simp: acquire_def Let_def holding_def lock_free_def locked_by_def upd_lock_def
      intro!: machine_eqI)

lemma acquire_Ok_free:
  "acquire h lk m = Ok m' \<Longrightarrow> \<not> lk_locked (locks m lk) \<and> m' = locked_by h lk m"
  by (auto simp: acquire_def Let_def holding_def locked_by_def upd_lock_def
      split: if_splits intro!: machine_eqI)

lemma acquire_held_panics: "holding h lk m \<Longrightarrow> acquire h lk m = Panic ''acquire''"
  by (simp add: acquire_def Let_def holding_def)

lemma acquire_other_spins:
  "lk_locked (locks m lk) \<Longrightarrow> lk_cpu (locks m lk) \<noteq> Some h \<Longrightarrow> acquire h lk m = Spins"
  by (simp add: acquire_def Let_def holding_def)

lemma release_not_held: "\<not> holding h lk m \<Longrightarrow> release h lk m = Panic ''release''"
  by (simp add: release_def)

lemma release_locked_by [lock_simps]:
  "lock_free lk m \<Longrightarrow> cpu_ok h m \<Longrightarrow> release h lk (locked_by h lk m) = Ok (touch h m)"
  by (auto simp: release_def holding_def locked_by_def upd_lock_def push_off_unfold upd_cpu_def
      pop_off_def Let_def intr_get_def intr_on_def touch_def cpu_ok_def lock_free_def
      intro!: machine_eqI)

lemma release_outer [lock_simps]:
  "lk \<noteq> lk' \<Longrightarrow> lock_free lk m \<Longrightarrow>
   release h lk (locked_by h lk' (locked_by h lk m)) = Ok (locked_by h lk' m)"
  by (auto simp: release_def holding_def locked_by_def upd_lock_def push_off_unfold upd_cpu_def
      pop_off_def Let_def intr_get_def intr_on_def touch_def cpu_ok_def lock_free_def
      intro!: machine_eqI)

lemma release_inner [lock_simps]:
  "lk \<noteq> lk' \<Longrightarrow> lock_free lk' m \<Longrightarrow>
   release h lk' (locked_by h lk' (locked_by h lk m)) = Ok (locked_by h lk m)"
  by (auto simp: release_def holding_def locked_by_def upd_lock_def push_off_unfold upd_cpu_def
      pop_off_def Let_def intr_get_def intr_on_def touch_def cpu_ok_def lock_free_def
      intro!: machine_eqI)

lemma locked_by_touch [lock_simps]: "locked_by h lk (touch h m) = locked_by h lk m"
  by (auto simp: locked_by_def touch_def upd_lock_def push_off_unfold upd_cpu_def intro!: machine_eqI)

lemma touch_touch [lock_simps]: "touch h (touch h m) = touch h m"
  by (auto simp: touch_def upd_cpu_def intro!: machine_eqI)

lemma lock_free_touch [lock_simps]: "lock_free lk (touch h m) = lock_free lk m"
  by (simp add: lock_free_def touch_def upd_cpu_def)

lemma lock_free_locked_by [lock_simps]: "lk \<noteq> lk' \<Longrightarrow> lock_free lk (locked_by h lk' m) = lock_free lk m"
  by (simp add: lock_free_def locked_by_def upd_lock_def)

lemma cpu_ok_touch [lock_simps]: "cpu_ok h (touch h m) = cpu_ok h m"
  by (simp add: cpu_ok_def touch_def upd_cpu_def)

lemma cpu_ok_locked_by [lock_simps]: "cpu_ok h (locked_by h lk m)"
  by (simp add: cpu_ok_def locked_by_def upd_lock_def push_off_unfold upd_cpu_def)

lemma holding_locked_by [lock_simps]:
  "holding h lk (locked_by h lk' m) = (lk = lk' \<or> holding h lk m)"
  by (auto simp: holding_def locked_by_def upd_lock_def)

lemma noff_locked_by [lock_simps]: "cpu_noff (cpus (locked_by h lk m) h) = cpu_noff (cpus m h) + 1"
  by (simp add: locked_by_def upd_lock_def push_off_unfold upd_cpu_def)

lemma sie_locked_by [lock_simps]: "\<not> cpu_sie (cpus (locked_by h lk m) h)"
  by (simp add: locked_by_def upd_lock_def push_off_unfold upd_cpu_def)

lemma locked_by_frame [simp]:
  "pmem (locked_by h lk m) = pmem m" "freelist (locked_by h lk m) = freelist m"
  "kend (locked_by h lk m) = kend m" "cpu_proc (cpus (locked_by h lk m) h') = cpu_proc (cpus m h')"
  "cpu_thread (cpus (locked_by h lk m) h') = cpu_thread (cpus m h')"
  by (simp_all add: locked_by_def upd_lock_def push_off_unfold upd_cpu_def)

lemma touch_frame [simp]:
  "pmem (touch h m) = pmem m" "freelist (touch h m) = freelist m"
  "kend (touch h m) = kend m" "locks (touch h m) = locks m"
  "cpu_proc (cpus (touch h m) h') = cpu_proc (cpus m h')"
  "cpu_thread (cpus (touch h m) h') = cpu_thread (cpus m h')"
  "cpu_noff (cpus (touch h m) h') = cpu_noff (cpus m h')"
  "cpu_sie (cpus (touch h m) h') = cpu_sie (cpus m h')"
  by (simp_all add: touch_def upd_cpu_def)

lemma pop_push_off: "cpu_ok h m \<Longrightarrow> pop_off h (push_off h m) = Ok (touch h m)"
  by (auto simp: push_off_unfold upd_cpu_def pop_off_def Let_def intr_get_def intr_on_def
      touch_def cpu_ok_def intro!: machine_eqI)


subsection \<open>Interleaved harts: the lock protocol access by access\<close>

text \<open>
  One lock and any number of harts.  A hart is at one of the points between two accesses to
  the shared lock; a step moves one hart by one access.  \<open>LSwap\<close> is the spin loop around the
  atomic swap; \<open>LPanicked\<close> is a hart that ran into one of the panics.
\<close>

datatype lpc = LIdle | LPushed | LSwap | LGot | LHeld | LCleared | LFreed | LPanicked

record lsys =
  lmach :: machine
  lpcs :: "nat \<Rightarrow> lpc"

inductive lstep :: "lockid \<Rightarrow> lsys \<Rightarrow> lsys \<Rightarrow> bool" for lk where
  acq_push: "lpcs s h = LIdle \<Longrightarrow>
    lstep lk s \<lparr>lmach = push_off h (lmach s), lpcs = (lpcs s)(h := LPushed)\<rparr>"
| acq_check: "lpcs s h = LPushed \<Longrightarrow>
    lstep lk s (s\<lparr>lpcs := (lpcs s)(h := if holding h lk (lmach s) then LPanicked else LSwap)\<rparr>)"
| acq_spin: "lpcs s h = LSwap \<Longrightarrow> lk_locked (locks (lmach s) lk) \<Longrightarrow> lstep lk s s"
| acq_swap: "lpcs s h = LSwap \<Longrightarrow> \<not> lk_locked (locks (lmach s) lk) \<Longrightarrow>
    lstep lk s \<lparr>lmach = upd_lock lk (lk_locked_update (\<lambda>_. True)) (lmach s),
               lpcs = (lpcs s)(h := LGot)\<rparr>"
| acq_note: "lpcs s h = LGot \<Longrightarrow>
    lstep lk s \<lparr>lmach = upd_lock lk (lk_cpu_update (\<lambda>_. Some h)) (lmach s),
               lpcs = (lpcs s)(h := LHeld)\<rparr>"
| rel_clear: "lpcs s h = LHeld \<Longrightarrow> holding h lk (lmach s) \<Longrightarrow>
    lstep lk s \<lparr>lmach = upd_lock lk (lk_cpu_update (\<lambda>_. None)) (lmach s),
               lpcs = (lpcs s)(h := LCleared)\<rparr>"
| rel_check: "lpcs s h = LHeld \<Longrightarrow> \<not> holding h lk (lmach s) \<Longrightarrow>
    lstep lk s (s\<lparr>lpcs := (lpcs s)(h := LPanicked)\<rparr>)"
| rel_free: "lpcs s h = LCleared \<Longrightarrow>
    lstep lk s \<lparr>lmach = upd_lock lk (lk_locked_update (\<lambda>_. False)) (lmach s),
               lpcs = (lpcs s)(h := LFreed)\<rparr>"
| rel_pop: "lpcs s h = LFreed \<Longrightarrow> pop_off h (lmach s) = Ok m' \<Longrightarrow>
    lstep lk s \<lparr>lmach = m', lpcs = (lpcs s)(h := LIdle)\<rparr>"
| rel_pop_panic: "lpcs s h = LFreed \<Longrightarrow> pop_off h (lmach s) = Panic e \<Longrightarrow>
    lstep lk s (s\<lparr>lpcs := (lpcs s)(h := LPanicked)\<rparr>)"

inductive lreach :: "lockid \<Rightarrow> lsys \<Rightarrow> lsys \<Rightarrow> bool" for lk where
  lrefl: "lreach lk s s"
| ltrans: "lreach lk s t \<Longrightarrow> lstep lk t u \<Longrightarrow> lreach lk s u"

definition linit :: "lockid \<Rightarrow> lsys \<Rightarrow> bool" where
  "linit lk s = (lock_free lk (lmach s) \<and>
     (\<forall>h. lpcs s h = LIdle \<and> cpu_noff (cpus (lmach s) h) = 0))"

text \<open>The owner \<open>w\<close> is the hart between its successful swap and its store of 0.\<close>

definition lown :: "lockid \<Rightarrow> nat option \<Rightarrow> lsys \<Rightarrow> bool" where
  "lown lk w s =
    ((\<forall>h. lpcs s h \<in> {LGot, LHeld, LCleared} \<longleftrightarrow> w = Some h) \<and>
     (lk_locked (locks (lmach s) lk) \<longleftrightarrow> w \<noteq> None) \<and>
     (\<forall>h. lk_cpu (locks (lmach s) lk) = Some h \<longleftrightarrow> lpcs s h = LHeld) \<and>
     (\<forall>h. lpcs s h \<noteq> LPanicked) \<and>
     (\<forall>h. cpu_noff (cpus (lmach s) h) = (if lpcs s h = LIdle then 0 else 1)) \<and>
     (\<forall>h. lpcs s h \<noteq> LIdle \<longrightarrow> \<not> cpu_sie (cpus (lmach s) h)))"

lemma lown_init: "linit lk s \<Longrightarrow> lown lk None s"
  by (simp add: linit_def lown_def lock_free_def)

lemmas lstep_defs = lown_def upd_lock_def upd_cpu_def push_off_unfold pop_off_def Let_def
  intr_get_def intr_on_def holding_def

lemma lown_iff:
  "lown lk w s \<Longrightarrow> w = Some h \<longleftrightarrow> lpcs s h = LGot \<or> lpcs s h = LHeld \<or> lpcs s h = LCleared"
  by (simp add: lown_def)

lemma lown_cpu:
  "lown lk w s \<Longrightarrow> lk_cpu (locks (lmach s) lk) = Some h \<longleftrightarrow> lpcs s h = LHeld"
  by (simp add: lown_def)

lemma lown_pop:
  assumes "lown lk w s" and "lpcs s h = LFreed"
  shows "pop_off h (lmach s) =
    Ok (upd_cpu h (\<lambda>c. c\<lparr>cpu_noff := 0, cpu_sie := cpu_intena c\<rparr>) (lmach s))"
proof -
  have "cpu_noff (cpus (lmach s) h) = 1" and "\<not> cpu_sie (cpus (lmach s) h)"
    using assms by (simp_all add: lown_def)
  then show ?thesis
    by (auto simp: pop_off_def intr_get_def intr_on_def upd_cpu_def Let_def intro!: machine_eqI)
qed

lemma lstep_lown: "lstep lk s t \<Longrightarrow> lown lk w s \<Longrightarrow> \<exists>w'. lown lk w' t"
proof (induction rule: lstep.induct)
  case (acq_push s h)
  moreover from acq_push have "w \<noteq> Some h" by (auto simp: lown_iff)
  ultimately have "lown lk w \<lparr>lmach = push_off h (lmach s), lpcs = (lpcs s)(h := LPushed)\<rparr>"
    by (auto simp: lstep_defs)
  then show ?case ..
next
  case (acq_check s h)
  moreover from acq_check have "w \<noteq> Some h" by (auto simp: lown_iff)
  ultimately have "lown lk w (s\<lparr>lpcs := (lpcs s)(h := if holding h lk (lmach s) then LPanicked else LSwap)\<rparr>)"
    by (auto simp: lstep_defs)
  then show ?case ..
next
  case (acq_spin s h)
  then show ?case by blast
next
  case (acq_swap s h)
  moreover from acq_swap have "w = None" by (auto simp: lown_def)
  ultimately have "lown lk (Some h) \<lparr>lmach = upd_lock lk (lk_locked_update (\<lambda>_. True)) (lmach s),
      lpcs = (lpcs s)(h := LGot)\<rparr>"
    by (auto simp: lstep_defs)
  then show ?case ..
next
  case (acq_note s h)
  moreover from acq_note have "w = Some h" by (auto simp: lown_iff)
  ultimately have "lown lk w \<lparr>lmach = upd_lock lk (lk_cpu_update (\<lambda>_. Some h)) (lmach s),
      lpcs = (lpcs s)(h := LHeld)\<rparr>"
    by (auto simp: lstep_defs)
  then show ?case ..
next
  case (rel_clear s h)
  moreover from rel_clear have "w = Some h" by (auto simp: lown_iff)
  ultimately have "lown lk w \<lparr>lmach = upd_lock lk (lk_cpu_update (\<lambda>_. None)) (lmach s),
      lpcs = (lpcs s)(h := LCleared)\<rparr>"
    by (auto simp: lstep_defs)
  then show ?case ..
next
  case (rel_check s h)
  moreover from rel_check have "w = Some h" by (auto simp: lown_iff)
  ultimately have False by (auto simp: lstep_defs)
  then show ?case ..
next
  case (rel_free s h)
  moreover from rel_free have "w = Some h" by (auto simp: lown_iff)
  ultimately have "lown lk None \<lparr>lmach = upd_lock lk (lk_locked_update (\<lambda>_. False)) (lmach s),
      lpcs = (lpcs s)(h := LFreed)\<rparr>"
    by (auto simp: lstep_defs)
  then show ?case ..
next
  case (rel_pop s h m')
  moreover from rel_pop have "w \<noteq> Some h" by (auto simp: lown_iff)
  moreover from rel_pop lown_pop
  have "m' = upd_cpu h (\<lambda>c. c\<lparr>cpu_noff := 0, cpu_sie := cpu_intena c\<rparr>) (lmach s)" by force
  ultimately have "lown lk w \<lparr>lmach = m', lpcs = (lpcs s)(h := LIdle)\<rparr>"
    by (simp add: lown_def upd_cpu_def)
  then show ?case ..
next
  case (rel_pop_panic s h e)
  then have False using lown_pop by force
  then show ?case ..
qed

lemma lreach_lown: "lreach lk s t \<Longrightarrow> linit lk s \<Longrightarrow> \<exists>w. lown lk w t"
proof (induction rule: lreach.induct)
  case (lrefl s)
  then show ?case by (blast intro: lown_init)
next
  case (ltrans s t u)
  then show ?case by (blast intro: lstep_lown)
qed

lemma acquire_is_run:
  assumes "lpcs s h = LIdle" and "lock_free lk (lmach s)"
  shows "lreach lk s \<lparr>lmach = locked_by h lk (lmach s), lpcs = (lpcs s)(h := LHeld)\<rparr>"
proof -
  define s1 where "s1 = \<lparr>lmach = push_off h (lmach s), lpcs = (lpcs s)(h := LPushed)\<rparr>"
  define s2 where "s2 = s1\<lparr>lpcs := (lpcs s1)(h := LSwap)\<rparr>"
  define s3 where "s3 = \<lparr>lmach = upd_lock lk (lk_locked_update (\<lambda>_. True)) (lmach s2),
      lpcs = (lpcs s2)(h := LGot)\<rparr>"
  define s4 where "s4 = \<lparr>lmach = upd_lock lk (lk_cpu_update (\<lambda>_. Some h)) (lmach s3),
      lpcs = (lpcs s3)(h := LHeld)\<rparr>"
  have "lstep lk s s1" unfolding s1_def using assms(1) by (rule acq_push)
  moreover have "lstep lk s1 s2"
    using acq_check [of s1 h lk] assms by (simp add: s1_def s2_def holding_def lock_free_def)
  moreover have "lstep lk s2 s3"
    unfolding s3_def using assms(2) by (intro acq_swap) (simp_all add: s1_def s2_def lock_free_def)
  moreover have "lstep lk s3 s4" unfolding s4_def by (intro acq_note) (simp add: s3_def)
  ultimately have "lreach lk s s4" by (meson lrefl ltrans)
  moreover have "s4 = \<lparr>lmach = locked_by h lk (lmach s), lpcs = (lpcs s)(h := LHeld)\<rparr>"
    by (auto simp: s1_def s2_def s3_def s4_def locked_by_def upd_lock_def intro!: machine_eqI)
  ultimately show ?thesis by simp
qed

text \<open>
  C1. Spin locks give mutual exclusion: however the harts interleave their accesses to the
  lock, no two of them are past their acquire at the same time, the hart that holds the lock is
  the one \<open>holding\<close> reports, and none of the four panics of acquire, release and pop_off
  is ever reached.
\<close>

theorem spinlock_mutual_exclusion:
  assumes "linit lk s" and "lreach lk s t" and "lpcs t h = LHeld"
  shows "holding h lk (lmach t) \<and> (\<forall>k. lpcs t k = LHeld \<longrightarrow> k = h) \<and> (\<forall>k. lpcs t k \<noteq> LPanicked)"
proof -
  obtain w where "lown lk w t" using assms(1,2) lreach_lown by blast
  then have own: "w = Some k" if "lpcs t k = LHeld" for k
    using that by (simp add: lown_iff)
  have "holding h lk (lmach t)" and "\<forall>k. lpcs t k \<noteq> LPanicked"
    using \<open>lown lk w t\<close> own [OF assms(3)] assms(3) by (simp_all add: lown_def holding_def)
  moreover have "k = h" if "lpcs t k = LHeld" for k
    using own [OF that] own [OF assms(3)] by simp
  ultimately show ?thesis by blast
qed

definition idle_machine :: machine where
  "idle_machine = \<lparr>cpus = (\<lambda>_. \<lparr>cpu_proc = None, cpu_thread = None, cpu_noff = 0,
       cpu_intena = False, cpu_sie = True\<rparr>),
     locks = (\<lambda>_. \<lparr>lk_locked = False, lk_name = [], lk_cpu = None\<rparr>),
     pmem = (\<lambda>_. 0), freelist = 0, kend = 0x80021000\<rparr>"

theorem spinlock_mutual_exclusion_witness:
  "\<exists>t. lreach KmemLock \<lparr>lmach = idle_machine, lpcs = (\<lambda>_. LIdle)\<rparr> t \<and> lpcs t 3 = LHeld \<and>
       holding 3 KmemLock (lmach t)"
proof -
  let ?s = "\<lparr>lmach = idle_machine, lpcs = (\<lambda>_. LIdle)\<rparr>"
  have i: "linit KmemLock ?s" by (simp add: linit_def lock_free_def idle_machine_def)
  have r: "lreach KmemLock ?s \<lparr>lmach = locked_by 3 KmemLock (lmach ?s), lpcs = (lpcs ?s)(3 := LHeld)\<rparr>"
    by (rule acquire_is_run) (simp_all add: lock_free_def idle_machine_def)
  let ?t = "\<lparr>lmach = locked_by 3 KmemLock (lmach ?s), lpcs = (lpcs ?s)(3 := LHeld)\<rparr>"
  have "lpcs ?t 3 = LHeld" by simp
  then show ?thesis using spinlock_mutual_exclusion [OF i r] r by blast
qed

end
