(* ===== verification/Kstring.thy ===== *)
theory Kstring
  imports Spinlock
begin

text \<open>
  Kernel/string.c over byte-addressed memory (a total map from 64-bit addresses to bytes), and
  the 32- and 64-bit little-endian accesses that C's typed loads and stores compile to.
  \<open>int\<close> counts that a loop runs down are natural numbers here; a caller reads them off the C
  argument.  The lemmas say that \<open>memset\<close> and \<open>memmove\<close> do what their names say (\<open>memmove\<close> also
  when the ranges overlap), and relate the string functions to the list of bytes before the NUL.
\<close>

unbundle bit_operations_syntax

type_synonym mem = "u64 \<Rightarrow> u8"

definition memset :: "mem \<Rightarrow> u64 \<Rightarrow> i32 \<Rightarrow> u32 \<Rightarrow> mem" where
  "memset m dst c n = fold (\<lambda>i m. m(dst + of_nat i := ucast c)) [0..<unat n] m"

primrec memcmp_loop :: "nat \<Rightarrow> mem \<Rightarrow> u64 \<Rightarrow> u64 \<Rightarrow> i32" where
  "memcmp_loop 0 m s1 s2 = 0"
| "memcmp_loop (Suc n) m s1 s2 =
     (if m s1 \<noteq> m s2 then ucast (m s1) - ucast (m s2) else memcmp_loop n m (s1 + 1) (s2 + 1))"

definition memcmp :: "mem \<Rightarrow> u64 \<Rightarrow> u64 \<Rightarrow> u32 \<Rightarrow> i32" where
  "memcmp m v1 v2 n = memcmp_loop (unat n) m v1 v2"

primrec copy_fwd :: "nat \<Rightarrow> mem \<Rightarrow> u64 \<Rightarrow> u64 \<Rightarrow> mem" where
  "copy_fwd 0 m d s = m"
| "copy_fwd (Suc n) m d s = copy_fwd n (m(d := m s)) (d + 1) (s + 1)"

primrec copy_bwd :: "nat \<Rightarrow> mem \<Rightarrow> u64 \<Rightarrow> u64 \<Rightarrow> mem" where
  "copy_bwd 0 m d s = m"
| "copy_bwd (Suc n) m d s = copy_bwd n (m(d - 1 := m (s - 1))) (d - 1) (s - 1)"

definition memmove :: "mem \<Rightarrow> u64 \<Rightarrow> u64 \<Rightarrow> u32 \<Rightarrow> mem" where
  "memmove m dst src n =
    (if src < dst \<and> src + ucast n > dst
     then copy_bwd (unat n) m (dst + ucast n) (src + ucast n)
     else copy_fwd (unat n) m dst src)"

definition memcpy :: "mem \<Rightarrow> u64 \<Rightarrow> u64 \<Rightarrow> u32 \<Rightarrow> mem" where
  "memcpy m dst src n = memmove m dst src n"

primrec strncmp_loop :: "nat \<Rightarrow> mem \<Rightarrow> u64 \<Rightarrow> u64 \<Rightarrow> i32" where
  "strncmp_loop 0 m p q = 0"
| "strncmp_loop (Suc n) m p q =
     (if m p \<noteq> 0 \<and> m p = m q then strncmp_loop n m (p + 1) (q + 1)
      else ucast (m p) - ucast (m q))"

definition strncmp :: "mem \<Rightarrow> u64 \<Rightarrow> u64 \<Rightarrow> u32 \<Rightarrow> i32" where
  "strncmp m p q n = strncmp_loop (unat n) m p q"

primrec zero_fill :: "nat \<Rightarrow> mem \<Rightarrow> u64 \<Rightarrow> mem" where
  "zero_fill 0 m s = m"
| "zero_fill (Suc n) m s = zero_fill n (m(s := 0)) (s + 1)"

primrec strncpy_loop :: "nat \<Rightarrow> mem \<Rightarrow> u64 \<Rightarrow> u64 \<Rightarrow> mem" where
  "strncpy_loop 0 m s t = m"
| "strncpy_loop (Suc n) m s t =
     (let c = m t; m = m(s := c)
      in if c \<noteq> 0 then strncpy_loop n m (s + 1) (t + 1) else zero_fill n m (s + 1))"

definition strncpy :: "mem \<Rightarrow> u64 \<Rightarrow> u64 \<Rightarrow> i32 \<Rightarrow> mem" where
  "strncpy m s t n = strncpy_loop (nat (sint n)) m s t"

primrec safestrcpy_loop :: "nat \<Rightarrow> mem \<Rightarrow> u64 \<Rightarrow> u64 \<Rightarrow> mem" where
  "safestrcpy_loop 0 m s t = m(s := 0)"
| "safestrcpy_loop (Suc n) m s t =
     (let c = m t; m = m(s := c)
      in if c \<noteq> 0 then safestrcpy_loop n m (s + 1) (t + 1) else m(s + 1 := 0))"

definition safestrcpy :: "mem \<Rightarrow> u64 \<Rightarrow> u64 \<Rightarrow> i32 \<Rightarrow> mem" where
  "safestrcpy m s t n = (if n \<le>s 0 then m else safestrcpy_loop (nat (sint n) - 1) m s t)"

partial_function (option) strlen_loop :: "mem \<Rightarrow> u64 \<Rightarrow> i32 \<Rightarrow> i32 option" where
  "strlen_loop m s n = (if m (s + scast n) = 0 then Some n else strlen_loop m s (n + 1))"

definition strlen :: "mem \<Rightarrow> u64 \<Rightarrow> i32 option" where
  "strlen m s = strlen_loop m s 0"

subsection \<open>Typed accesses\<close>

primrec ld :: "nat \<Rightarrow> mem \<Rightarrow> u64 \<Rightarrow> 'a::len word" where
  "ld 0 m a = 0"
| "ld (Suc n) m a = ucast (m a) OR push_bit 8 (ld n m (a + 1))"

primrec st :: "nat \<Rightarrow> mem \<Rightarrow> u64 \<Rightarrow> 'a::len word \<Rightarrow> mem" where
  "st 0 m a v = m"
| "st (Suc n) m a v = st n (m(a := ucast v)) (a + 1) (drop_bit 8 v)"

abbreviation ld32 :: "mem \<Rightarrow> u64 \<Rightarrow> u32" where "ld32 \<equiv> ld 4"
abbreviation ld64 :: "mem \<Rightarrow> u64 \<Rightarrow> u64" where "ld64 \<equiv> ld 8"
abbreviation st32 :: "mem \<Rightarrow> u64 \<Rightarrow> u32 \<Rightarrow> mem" where "st32 \<equiv> st 4"
abbreviation st64 :: "mem \<Rightarrow> u64 \<Rightarrow> u64 \<Rightarrow> mem" where "st64 \<equiv> st 8"

text \<open>Address \<open>x\<close> lies in the \<open>n\<close> bytes at \<open>a\<close>; two ranges do not meet.\<close>

definition within :: "u64 \<Rightarrow> u64 \<Rightarrow> nat \<Rightarrow> bool" where
  "within x a n = (unat (x - a) < n)"

definition apart :: "u64 \<Rightarrow> nat \<Rightarrow> u64 \<Rightarrow> nat \<Rightarrow> bool" where
  "apart a n b k = (k \<le> unat (a - b) \<and> n \<le> unat (b - a))"

lemma within_0 [simp]: "\<not> within x a 0"
  by (simp add: within_def)

lemma unat_diff_eq_iff: "k < 2 ^ 64 \<Longrightarrow> unat (x - a) = k \<longleftrightarrow> x = a + of_nat k" for x a :: u64
proof
  assume "k < 2 ^ 64" and "unat (x - a) = k"
  moreover have "of_nat (unat (x - a)) = x - a" by simp
  ultimately have "x - a = of_nat k" by simp
  then show "x = a + of_nat k" by (simp add: algebra_simps)
next
  assume "k < 2 ^ 64" and "x = a + of_nat k"
  then show "unat (x - a) = k" by (simp add: unat_of_nat_small)
qed

lemma within_Suc: "n < 2 ^ 64 \<Longrightarrow> within x a (Suc n) \<longleftrightarrow> within x a n \<or> x = a + of_nat n"
  using unat_diff_eq_iff [of n x a] by (auto simp: within_def less_Suc_eq)

lemma within_Suc_head: "n < 2 ^ 64 \<Longrightarrow> within x a (Suc n) \<longleftrightarrow> x = a \<or> within x (a + 1) n"
proof -
  assume n: "n < 2 ^ 64"
  show ?thesis
  proof (cases "x = a")
    case False
    then have "x - a \<noteq> 0" by simp
    then have "unat (x - a - 1) = unat (x - a) - 1" by (rule unat_minus_one)
    moreover have "0 < unat (x - a)" using \<open>x - a \<noteq> 0\<close> by (simp add: unat_gt_0)
    ultimately have "unat (x - a) = Suc (unat (x - a - 1))" by simp
    then show ?thesis using False by (simp add: within_def algebra_simps)
  qed (simp add: within_def)
qed


lemma memset_eq:
  "memset m dst c n = (\<lambda>x. if within x dst (unat n) then ucast c else m x)"
proof -
  have "fold (\<lambda>i m. m(dst + of_nat i := v)) [0..<k] m =
      (\<lambda>x. if within x dst k then v else m x)" if "k \<le> 2 ^ 32" for k and v :: u8
    using that
  proof (induction k)
    case (Suc k)
    then have "k < 2 ^ 64" by simp
    with Suc show ?case by (auto simp: within_Suc)
  qed simp
  moreover have "unat n \<le> 2 ^ 32" using unsigned_less [of n, where 'a = nat] by simp
  ultimately show ?thesis by (simp add: memset_def)
qed

lemma copy_fwd_eq:
  "n < 2 ^ 64 \<Longrightarrow> d = s \<or> n \<le> unat (d - s) \<Longrightarrow>
   copy_fwd n m d s x = (if within x d n then m (s + (x - d)) else m x)"
proof (induction n arbitrary: m d s)
  case (Suc n)
  have n: "n < 2 ^ 64" using Suc.prems by simp
  have IH: "copy_fwd n (m(d := m s)) (d + 1) (s + 1) x =
      (if within x (d + 1) n then (m(d := m s)) (s + (x - d)) else (m(d := m s)) x)"
  proof -
    have "d + 1 = s + 1 \<or> n \<le> unat (d + 1 - (s + 1))" using Suc.prems(2) by auto
    note Suc.IH [OF n this, of "m(d := m s)"]
    moreover have "s + 1 + (x - (d + 1)) = s + (x - d)" by (simp add: algebra_simps)
    ultimately show ?thesis by metis
  qed
  show ?case
  proof (cases "within x (d + 1) n \<and> x \<noteq> d")
    case True
    then have "unat (x - d - 1) < n" and "x - d \<noteq> 0" by (auto simp: within_def algebra_simps)
    then have "unat (x - d) < Suc n" by (simp add: unat_minus_one)
    moreover have "s + (x - d) = d \<Longrightarrow> x - d = d - s" by (simp add: algebra_simps)
    ultimately have "s + (x - d) \<noteq> d" using Suc.prems(2) \<open>x - d \<noteq> 0\<close> by auto
    with True IH n show ?thesis by (simp add: within_Suc_head)
  next
    case False
    show ?thesis
    proof (cases "x = d")
      case True
      have "d - (d + 1) = -1" by simp
      then have "\<not> within d (d + 1) n" using Suc.prems(1)
        by (simp add: within_def unsigned_minus_1_eq_mask mask_eq_exp_minus_1)
      with True IH n show ?thesis by (simp add: within_Suc_head)
    next
      case False
      with \<open>\<not> (within x (d + 1) n \<and> x \<noteq> d)\<close> IH n show ?thesis by (simp add: within_Suc_head)
    qed
  qed
qed simp

lemma copy_bwd_eq:
  "n < 2 ^ 64 \<Longrightarrow> d = s \<or> n \<le> unat (s - d) \<Longrightarrow>
   copy_bwd n m (d + of_nat n) (s + of_nat n) x = (if within x d n then m (s + (x - d)) else m x)"
proof (induction n arbitrary: m)
  case (Suc n)
  let ?m = "m(d + of_nat n := m (s + of_nat n))"
  have IH: "copy_bwd n ?m (d + of_nat n) (s + of_nat n) x =
      (if within x d n then ?m (s + (x - d)) else ?m x)"
    using Suc by auto
  have "s + (x - d) \<noteq> d + of_nat n" if "within x d n"
  proof
    assume "s + (x - d) = d + of_nat n"
    then have e: "s - d = of_nat n - (x - d)" by (simp add: algebra_simps)
    have lt: "unat (x - d) < n" using that by (simp add: within_def)
    moreover have un: "unat (of_nat n :: u64) = n" using Suc.prems by (simp add: unat_of_nat_small)
    ultimately have "unat (s - d) = n - unat (x - d)"
      unfolding e by (simp add: unat_sub word_le_nat_alt)
    then show False using lt Suc.prems(2) by auto
  qed
  then show ?case using IH Suc.prems(1) by (auto simp: within_Suc algebra_simps)
qed simp


lemma unat_ucast_u32 [simp]: "unat (ucast (n :: u32) :: u64) = unat n"
proof -
  have "unat n < 2 ^ 32" using unsigned_less [of n, where 'a = nat] by simp
  then show ?thesis by (simp add: unsigned_ucast_eq take_bit_nat_eq_self_iff)
qed

lemma memmove_eq:
  assumes "unat src + unat n < 2 ^ 64"
  shows "memmove m dst src n =
    (\<lambda>x. if within x dst (unat n) then m (src + (x - dst)) else m x)"
proof
  fix x
  let ?k = "unat n"
  have k: "?k < 2 ^ 64" using assms by simp
  have sn: "unat (src + ucast n) = unat src + ?k"
    using assms by (simp add: unat_word_ariths)
  show "memmove m dst src n x = (if within x dst ?k then m (src + (x - dst)) else m x)"
  proof (cases "src < dst \<and> src + ucast n > dst")
    case True
    then have "unat src < unat dst" and "unat dst < unat src + ?k"
      using sn by (simp_all add: word_less_nat_alt)
    then have "unat (src - dst) = 2 ^ 64 - (unat dst - unat src)"
      by (simp add: unat_sub_if_size word_size word_le_nat_alt)
    then have "?k \<le> unat (src - dst)"
      using assms \<open>unat src < unat dst\<close> \<open>unat dst < unat src + ?k\<close> unsigned_less [of n, where 'a = nat]
      by simp
    then show ?thesis using True copy_bwd_eq [OF k, of dst src m x]
      by (simp add: memmove_def)
  next
    case False
    have "dst = src \<or> ?k \<le> unat (dst - src)"
    proof (cases "src < dst")
      case True
      with False have "unat src + ?k \<le> unat dst"
        using sn by (simp add: word_less_nat_alt)
      then have "?k \<le> unat (dst - src)" by (simp add: unat_sub_if_size word_size word_le_nat_alt)
      then show ?thesis ..
    next
      case False
      then have "dst = src \<or> unat dst < unat src" by (auto simp: word_less_nat_alt word_unat_eq_iff)
      then show ?thesis using assms by (auto simp: unat_sub_if_size word_size word_le_nat_alt)
    qed
    then show ?thesis using False copy_fwd_eq [OF k, of dst src m x] by (auto simp: memmove_def)
  qed
qed

text \<open>
  C2. memmove copies the bytes the source held before the call, whether or not the ranges
  overlap, and changes nothing outside the destination; it needs only that the source range does
  not run past the last address.
\<close>

theorem memmove_copies:
  assumes "unat src + unat n < 2 ^ 64"
  shows "memmove m dst src n =
    (\<lambda>x. if within x dst (unat n) then m (src + (x - dst)) else m x)"
  using assms by (rule memmove_eq)

theorem memmove_copies_witness:
  "memmove ucast 0x1002 0x1000 5 0x1004 = 2"
  using memmove_copies [of "0x1000" "5" ucast "0x1002"] by (simp add: within_def)


subsection \<open>Reads over writes\<close>

lemma st_outside: "n < 2 ^ 64 \<Longrightarrow> \<not> within x a n \<Longrightarrow> st n m a v x = m x"
proof (induction n arbitrary: m a v)
  case (Suc n)
  then have "n < 2 ^ 64" by simp
  with Suc.prems have "x \<noteq> a" and "\<not> within x (a + 1) n" by (auto simp: within_Suc_head)
  then show ?case using Suc.IH [OF \<open>n < 2 ^ 64\<close>] by simp
qed simp

lemma ld_cong:
  "(\<And>x. within x a n \<Longrightarrow> m x = m' x) \<Longrightarrow> n < 2 ^ 64 \<Longrightarrow> ld n m a = ld n m' a"
proof (induction n arbitrary: a)
  case (Suc n)
  then have n: "n < 2 ^ 64" by simp
  have "m a = m' a" using Suc.prems(1) by (simp add: within_def)
  moreover have "ld n m (a + 1) = (ld n m' (a + 1) :: 'a word)"
    using Suc.IH [of "a + 1"] Suc.prems(1) n by (auto simp: within_Suc_head)
  ultimately show ?case by simp
qed simp

lemma apart_within:
  assumes "apart a n b k" and "within x a n"
  shows "\<not> within x b k"
proof -
  have *: "unat (x - a) < n" "k \<le> unat (a - b)" "n \<le> unat (b - a)"
    using assms by (simp_all add: apart_def within_def)
  show ?thesis
  proof (cases "a = b")
    case True
    with * show ?thesis by simp
  next
    case False
    have "unat (a - b) + unat (b - a) = 2 ^ 64"
      using False unsigned_less [of a, where 'a = nat] unsigned_less [of b, where 'a = nat]
      by (auto simp: unat_sub_if_size word_size word_le_nat_alt word_unat_eq_iff)
    then have "unat (x - a) + unat (a - b) < 2 ^ 64" using * by simp
    then have "unat (x - b) = unat (x - a) + unat (a - b)"
      using unat_word_ariths(1) [of "x - a" "a - b"] by simp
    then show ?thesis using * by (simp add: within_def)
  qed
qed

lemma apart_sym: "apart a n b k = apart b k a n"
  by (auto simp: apart_def)

lemma ld_st_apart [mem_simps]:
  "apart a n b k \<Longrightarrow> n < 2 ^ 64 \<Longrightarrow> k < 2 ^ 64 \<Longrightarrow> ld n (st k m b v) a = ld n m a"
  by (rule ld_cong) (simp_all add: st_outside apart_within)

lemma ld_memset_apart [mem_simps]:
  "apart a n b (unat k) \<Longrightarrow> n < 2 ^ 64 \<Longrightarrow> ld n (memset m b c k) a = ld n m a"
  by (rule ld_cong) (simp_all add: memset_eq apart_within)

lemma ld_st_bits: "n \<le> 8 \<Longrightarrow> ld n (st n m a v) a = (take_bit (8 * n) v :: 'a::len word)"
proof (induction n arbitrary: m a v)
  case (Suc n)
  have "\<not> within a (a + 1) n"
    using Suc.prems by (simp add: within_def unsigned_minus_1_eq_mask mask_eq_exp_minus_1)
  then have "st n (m(a := ucast v)) (a + 1) (drop_bit 8 v) a = ucast v"
    using Suc.prems by (simp add: st_outside)
  moreover have "ucast (ucast v :: u8) OR push_bit 8 (take_bit (8 * n) (drop_bit 8 v)) =
      take_bit (8 * Suc n) v"
    by (rule bit_word_eqI) (auto simp: bit_simps)
  ultimately show ?case using Suc by simp
qed simp

lemma ld64_st64 [mem_simps]: "ld64 (st64 m a v) a = v"
  using ld_st_bits [of 8 m a v] by (simp add: take_bit_word_eq_self)

lemma ld32_st32 [mem_simps]: "ld32 (st32 m a v) a = v"
  using ld_st_bits [of 4 m a v] by (simp add: take_bit_word_eq_self)

lemma ld64_zero: "(\<And>x. within x a 8 \<Longrightarrow> m x = 0) \<Longrightarrow> ld64 m a = 0"
proof -
  assume *: "\<And>x. within x a 8 \<Longrightarrow> m x = 0"
  have "ld n (\<lambda>_. 0) b = (0 :: u64)" for n b by (induction n arbitrary: b) simp_all
  moreover have "ld64 m a = ld64 (\<lambda>_. 0) a" by (rule ld_cong) (simp_all add: *)
  ultimately show ?thesis by simp
qed


subsection \<open>NUL-terminated strings\<close>

text \<open>\<open>cstr m s xs\<close>: the bytes at \<open>s\<close> are \<open>xs\<close>, none of them NUL, and then a NUL.\<close>

primrec cstr :: "mem \<Rightarrow> u64 \<Rightarrow> u8 list \<Rightarrow> bool" where
  "cstr m s [] = (m s = 0)"
| "cstr m s (x # xs) = (x \<noteq> 0 \<and> m s = x \<and> cstr m (s + 1) xs)"

lemma cstr_cong:
  "length xs < 2 ^ 64 \<Longrightarrow> (\<And>x. within x t (Suc (length xs)) \<Longrightarrow> m x = m' x) \<Longrightarrow> cstr m t xs = cstr m' t xs"
proof (induction xs arbitrary: t)
  case Nil
  then show ?case by (simp add: within_def)
next
  case (Cons y ys)
  have "cstr m (t + 1) ys = cstr m' (t + 1) ys"
    by (rule Cons.IH) (use Cons.prems in \<open>auto simp: within_Suc_head [of "Suc (length ys)"]\<close>)
  moreover have "m t = m' t" using Cons.prems by (simp add: within_def)
  ultimately show ?case by simp
qed

lemma scast_of_nat_i32: "k < 2 ^ 31 \<Longrightarrow> (scast (of_nat k :: i32) :: u64) = of_nat k"
proof -
  assume "k < 2 ^ 31"
  then have "sint (of_nat k :: i32) = int k"
    by (simp add: signed_of_nat signed_take_bit_int_eq_self_iff)
  then show ?thesis by (metis of_int_of_nat_eq of_int_sint)
qed

lemma strlen_loop_cstr:
  "cstr m (s + of_nat k) xs \<Longrightarrow> k + length xs < 2 ^ 31 \<Longrightarrow>
   strlen_loop m s (of_nat k) = Some (of_nat (k + length xs))"
proof (induction xs arbitrary: k)
  case Nil
  then show ?case by (subst strlen_loop.simps) (simp add: scast_of_nat_i32)
next
  case (Cons x xs)
  then have "cstr m (s + of_nat (Suc k)) xs" by (simp add: algebra_simps)
  then have "strlen_loop m s (of_nat (Suc k)) = Some (of_nat (Suc k + length xs))"
    by (rule Cons.IH) (use Cons.prems in simp)
  moreover have "strlen_loop m s (of_nat k) = strlen_loop m s (of_nat k + 1)"
    using Cons.prems by (subst strlen_loop.simps) (simp add: scast_of_nat_i32)
  ultimately show ?case by (simp add: add.commute)
qed

lemma strlen_cstr: "cstr m s xs \<Longrightarrow> length xs < 2 ^ 31 \<Longrightarrow> strlen m s = Some (of_nat (length xs))"
  using strlen_loop_cstr [of m s 0 xs] by (simp add: strlen_def)

lemma unat_ucast_u8 [simp]: "unat (ucast (a :: u8) :: u32) = unat a"
proof -
  have "unat a < 2 ^ 8" using unsigned_less [of a, where 'a = nat] by simp
  then show ?thesis by (simp add: unsigned_ucast_eq take_bit_nat_eq_self_iff)
qed

lemma ucast_u8_eq_iff [simp]: "(ucast (a :: u8) :: u32) = ucast b \<longleftrightarrow> a = b"
  by (simp add: word_unat_eq_iff)

lemma ucast_u8_eq_0 [simp]: "(ucast (a :: u8) :: u32) = 0 \<longleftrightarrow> a = 0"
  by (simp add: word_unat_eq_iff)

lemma strncmp_loop_cstr:
  "cstr m p xs \<Longrightarrow> cstr m q ys \<Longrightarrow> strncmp_loop n m p q = 0 \<longleftrightarrow> take n xs = take n ys"
proof (induction n arbitrary: p q xs ys)
  case (Suc n)
  show ?case
  proof (cases xs)
    case Nil
    with Suc.prems show ?thesis by (cases ys) auto
  next
    case (Cons x xs')
    show ?thesis
    proof (cases ys)
      case Nil
      with Cons Suc.prems show ?thesis by auto
    next
      case (Cons y ys')
      with \<open>xs = x # xs'\<close> Suc show ?thesis by auto
    qed
  qed
qed simp

lemma zero_fill_eq: "n < 2 ^ 64 \<Longrightarrow> zero_fill n m s x = (if within x s n then 0 else m x)"
proof (induction n arbitrary: m s)
  case (Suc n)
  then have n: "n < 2 ^ 64" by simp
  show ?case by (simp add: Suc.IH [OF n] within_Suc_head [OF n])
qed simp


lemma strncpy_loop_cstr:
  "cstr m t xs \<Longrightarrow> n < 2 ^ 64 \<Longrightarrow> length xs < 2 ^ 63 \<Longrightarrow> apart t (Suc (length xs)) s n \<Longrightarrow>
   strncpy_loop n m s t x =
     (if within x s n then (if unat (x - s) < length xs then xs ! unat (x - s) else 0) else m x)"
proof (induction n arbitrary: m s t xs)
  case (Suc n)
  have n: "n < 2 ^ 64" using Suc.prems by simp
  have off: "x \<noteq> s \<Longrightarrow> unat (x - s) = Suc (unat (x - (s + 1)))"
  proof -
    assume "x \<noteq> s"
    then have "x - s \<noteq> 0" by simp
    then have "unat (x - s - 1) = unat (x - s) - 1" and "0 < unat (x - s)"
      by (simp_all add: unat_minus_one unat_gt_0)
    then show ?thesis by (simp add: algebra_simps)
  qed
  have sn: "\<not> within s (s + 1) n"
    using Suc.prems by (simp add: within_def unsigned_minus_1_eq_mask mask_eq_exp_minus_1)
  show ?case
  proof (cases xs)
    case Nil
    then have "m t = 0" using Suc.prems by simp
    then show ?thesis using Nil by (simp add: zero_fill_eq [OF n] within_Suc_head [OF n])
  next
    case (Cons y ys)
    then have y: "m t = y" "y \<noteq> 0" "cstr m (t + 1) ys" using Suc.prems by auto
    have ap: "apart (t + 1) (Suc (length ys)) (s + 1) n"
      using Suc.prems(4) Cons by (simp add: apart_def)
    have "cstr (m(s := y)) (t + 1) ys"
    proof -
      have "within z t (Suc (length xs))" if "within z (t + 1) (Suc (length ys))" for z
        using that Cons Suc.prems(3) by (simp add: within_Suc_head)
      moreover have "within s s (Suc n)" by (simp add: within_def)
      ultimately have "z \<noteq> s" if "within z (t + 1) (Suc (length ys))" for z
        using that Suc.prems(4) apart_within by blast
      then have "cstr m (t + 1) ys = cstr (m(s := y)) (t + 1) ys"
        using Cons Suc.prems(3) by (intro cstr_cong) auto
      then show ?thesis using y by simp
    qed
    moreover define m1 where "m1 = m(s := y)"
    ultimately have "cstr m1 (t + 1) ys" by simp
    moreover have "length ys < 2 ^ 63" using Cons Suc.prems(3) by simp
    ultimately have IH: "strncpy_loop n m1 (s + 1) (t + 1) x =
        (if within x (s + 1) n
         then (if unat (x - (s + 1)) < length ys then ys ! unat (x - (s + 1)) else 0) else m1 x)"
      using ap by (intro Suc.IH n)
    have step: "strncpy_loop (Suc n) m s t = strncpy_loop n m1 (s + 1) (t + 1)"
      using y by (simp add: m1_def)
    show ?thesis
    proof (cases "x = s")
      case True
      then show ?thesis unfolding step IH using sn Cons by (simp add: m1_def within_def [of s s])
    next
      case False
      then show ?thesis unfolding step IH using Cons off [OF False]
        by (simp add: m1_def within_Suc_head [OF n])
    qed
  qed
qed simp


lemma cstr_take_outside:
  "cstr m s xs \<Longrightarrow> length xs < 2 ^ 64 \<Longrightarrow> \<not> within a s (Suc (length xs)) \<Longrightarrow> cstr (m(a := v)) s xs"
  using cstr_cong [of xs s m "m(a := v)"] by (metis fun_upd_other)

lemma safestrcpy_loop_cstr:
  "cstr m t xs \<Longrightarrow> Suc k < 2 ^ 64 \<Longrightarrow> length xs < 2 ^ 63 \<Longrightarrow> apart t (Suc (length xs)) s (Suc k) \<Longrightarrow>
   cstr (safestrcpy_loop k m s t) s (take k xs) \<and>
   (\<forall>x. \<not> within x s (Suc k) \<longrightarrow> safestrcpy_loop k m s t x = m x)"
proof (induction k arbitrary: m s t xs)
  case 0
  then show ?case by (auto simp: within_def)
next
  case (Suc k)
  have k: "Suc k < 2 ^ 64" using Suc.prems by simp
  show ?case
  proof (cases xs)
    case Nil
    then have "m t = 0" using Suc.prems by simp
    then show ?thesis using Nil by (auto simp: within_Suc_head [OF k] within_def)
  next
    case (Cons y ys)
    then have y: "m t = y" "y \<noteq> 0" "cstr m (t + 1) ys" using Suc.prems by auto
    have ap: "apart (t + 1) (Suc (length ys)) (s + 1) (Suc k)"
      using Suc.prems(4) Cons by (simp add: apart_def)
    have "\<not> within s (t + 1) (Suc (length ys))"
    proof
      assume "within s (t + 1) (Suc (length ys))"
      then have "within s t (Suc (length xs))" using Cons Suc.prems(3) by (simp add: within_Suc_head)
      moreover have "within s s (Suc (Suc k))" by (simp add: within_def)
      ultimately show False using Suc.prems(4) apart_within by blast
    qed
    then have "cstr (m(s := y)) (t + 1) ys"
      using y(3) Cons Suc.prems(3) by (intro cstr_take_outside) auto
    moreover define m1 where "m1 = m(s := y)"
    ultimately have "cstr m1 (t + 1) ys" by simp
    moreover have "length ys < 2 ^ 63" using Cons Suc.prems(3) by simp
    ultimately have IH: "cstr (safestrcpy_loop k m1 (s + 1) (t + 1)) (s + 1) (take k ys) \<and>
        (\<forall>x. \<not> within x (s + 1) (Suc k) \<longrightarrow> safestrcpy_loop k m1 (s + 1) (t + 1) x = m1 x)"
      using ap by (intro Suc.IH k)
    have sn: "\<not> within s (s + 1) (Suc k)"
      using Suc.prems by (simp add: within_def unsigned_minus_1_eq_mask mask_eq_exp_minus_1)
    have step: "safestrcpy_loop (Suc k) m s t = safestrcpy_loop k m1 (s + 1) (t + 1)"
      using y by (simp add: m1_def)
    show ?thesis
      unfolding step using IH sn y Cons by (auto simp: m1_def within_Suc_head [OF k])
  qed
qed

text \<open>
  C3. safestrcpy always leaves a NUL-terminated string: the destination holds the longest prefix
  of the source that fits in n - 1 bytes, ended by a NUL, and no byte outside the n-byte
  destination is written.
\<close>

theorem safestrcpy_terminates_string:
  assumes "cstr m t xs" and "0 <s n" and "length xs < 2 ^ 63"
    and "apart t (Suc (length xs)) s (unat n)"
  shows "cstr (safestrcpy m s t n) s (take (unat n - 1) xs) \<and>
         (\<forall>x. \<not> within x s (unat n) \<longrightarrow> safestrcpy m s t n x = m x)"
proof -
  have si: "0 < sint n" using assms(2) by (simp add: word_sless_alt)
  then have un: "nat (sint n) = unat n"
    by (simp add: nat_sint_unat)
  have "0 < unat n" using si un by linarith
  then obtain k where k: "unat n = Suc k" using gr0_implies_Suc by blast
  have "unat n < 2 ^ 32" using unsigned_less [of n, where 'a = nat] by simp
  then have "Suc k < 2 ^ 64" using k by simp
  then show ?thesis
    using safestrcpy_loop_cstr [OF assms(1), of k s] assms(3,4) si un k
    by (simp add: safestrcpy_def word_sle_eq)
qed


theorem safestrcpy_terminates_string_witness:
  "cstr (safestrcpy (\<lambda>a. if a = 0x10 then 65 else if a = 0x11 then 66 else 0) 0x20 0x10 2) 0x20 [65]"
proof -
  let ?m = "\<lambda>a :: u64. if a = 0x10 then 65 else if a = 0x11 then 66 else (0 :: u8)"
  have "cstr ?m 0x10 [65, 66]" by simp
  moreover have "(0 :: i32) <s 2" by (simp add: word_sless_alt)
  moreover have "apart 0x10 (Suc (length [65 :: u8, 66])) 0x20 (unat (2 :: i32))" by (simp add: apart_def)
  ultimately show ?thesis
    using safestrcpy_terminates_string [of ?m "0x10" "[65, 66]" "2" "0x20"] by simp
qed

end
