(* ===== verification/Kalloc.thy ===== *)
theory Kalloc
  imports Kstring
begin

text \<open>
  Kernel/kalloc.c: the physical page allocator.  The free list is threaded through the free pages
  themselves: \<open>kmem.freelist\<close> points to the first one, and the first eight bytes of a free page
  point to the next.  \<open>flist\<close> reads that list off the memory; the invariant says that it is a
  list of distinct, page-aligned pages between \<open>end\<close> and \<open>PHYSTOP\<close>.  What the allocator promises its
  callers is the locale \<open>page_allocator\<close>; it is interpreted on \<open>kalloc\<close> and \<open>kfree\<close>.
\<close>

unbundle bit_operations_syntax

abbreviation PGSIZE :: u64 where "PGSIZE \<equiv> 4096"
abbreviation KERNBASE :: u64 where "KERNBASE \<equiv> 0x80000000"
abbreviation PHYSTOP :: u64 where "PHYSTOP \<equiv> 0x88000000"

definition PGROUNDUP :: "u64 \<Rightarrow> u64" where
  "PGROUNDUP sz = (sz + PGSIZE - 1) AND NOT (PGSIZE - 1)"

definition PGROUNDDOWN :: "u64 \<Rightarrow> u64" where
  "PGROUNDDOWN a = a AND NOT (PGSIZE - 1)"

definition kfree :: "nat \<Rightarrow> u64 \<Rightarrow> machine \<Rightarrow> machine res" where
  "kfree h pa m =
    (if pa mod PGSIZE \<noteq> 0 \<or> pa < kend m \<or> pa \<ge> PHYSTOP then Panic ''kfree''
     else let m = m\<lparr>pmem := memset (pmem m) pa 1 4096\<rparr>
          in kbind (acquire h KmemLock m) (\<lambda>m.
             release h KmemLock (m\<lparr>pmem := st64 (pmem m) pa (freelist m), freelist := pa\<rparr>)))"

definition kalloc :: "nat \<Rightarrow> machine \<Rightarrow> (u64 \<times> machine) res" where
  "kalloc h m =
    kbind (acquire h KmemLock m) (\<lambda>m.
    let r = freelist m;
        m = (if r \<noteq> 0 then m\<lparr>freelist := ld64 (pmem m) r\<rparr> else m)
    in kbind (release h KmemLock m) (\<lambda>m.
    Ok (r, if r \<noteq> 0 then m\<lparr>pmem := memset (pmem m) r 5 4096\<rparr> else m)))"

lemma kfree_Ok_range:
  "kfree h pa m = Ok m' \<Longrightarrow> pa mod PGSIZE = 0 \<and> kend m \<le> pa \<and> pa < PHYSTOP"
  by (auto simp: kfree_def split: if_splits)

function freerange_loop :: "nat \<Rightarrow> u64 \<Rightarrow> u64 \<Rightarrow> machine \<Rightarrow> machine res" where
  "freerange_loop h p pa_end m =
    (if p + PGSIZE \<le> pa_end then kbind (kfree h p m) (freerange_loop h (p + PGSIZE) pa_end) else Ok m)"
  by pat_completeness auto
termination
proof (relation "measure (\<lambda>(h, p, e, m). unat PHYSTOP - unat p)")
  fix h p pa_end m m'
  assume "kfree h p m = Ok m'"
  then have "p < PHYSTOP" by (auto dest: kfree_Ok_range)
  then have lt: "unat p < 0x88000000" by (simp add: word_less_nat_alt)
  then have "unat (p + PGSIZE) = unat p + 4096"
    by (simp add: unat_word_ariths)
  with lt show "((h, p + PGSIZE, pa_end, m'), h, p, pa_end, m) \<in>
      measure (\<lambda>(h, p, e, m). unat PHYSTOP - unat p)" by simp
qed simp

definition freerange :: "nat \<Rightarrow> u64 \<Rightarrow> u64 \<Rightarrow> machine \<Rightarrow> machine res" where
  "freerange h pa_start pa_end m = freerange_loop h (PGROUNDUP pa_start) pa_end m"

definition kinit :: "nat \<Rightarrow> machine \<Rightarrow> machine res" where
  "kinit h m = (let m = initlock KmemLock ''kmem'' m in freerange h (kend m) PHYSTOP m)"


subsection \<open>Pages\<close>

definition page_ok :: "machine \<Rightarrow> u64 \<Rightarrow> bool" where
  "page_ok m p = (p mod PGSIZE = 0 \<and> kend m \<le> p \<and> p < PHYSTOP \<and> p \<noteq> 0)"

lemma mask12: "(0xFFF :: u64) = mask 12"
  by (simp add: mask_eq_exp_minus_1)

lemma PGROUNDDOWN_bits: "PGROUNDDOWN a = push_bit 12 (drop_bit 12 a)"
proof -
  have "a AND NOT (mask 12) = push_bit 12 (drop_bit 12 a)"
    by (rule bit_word_eqI) (auto simp: bit_simps)
  then show ?thesis by (simp add: PGROUNDDOWN_def mask_eq_exp_minus_1)
qed

lemma unat_PGROUNDDOWN: "unat (PGROUNDDOWN a) = unat a div 4096 * 4096"
proof -
  have "unat a div 4096 * 4096 \<le> unat a" by simp
  then have "unat a div 4096 * 4096 < 2 ^ 64"
    using unsigned_less [of a, where 'a = nat] by simp
  then show ?thesis
    by (simp add: PGROUNDDOWN_bits push_bit_eq_mult drop_bit_eq_div unat_word_ariths unat_div_distrib)
qed

lemma unat_PGROUNDUP:
  "unat sz + 4095 < 2 ^ 64 \<Longrightarrow> unat (PGROUNDUP sz) = (unat sz + 4095) div 4096 * 4096"
proof -
  assume "unat sz + 4095 < 2 ^ 64"
  then have "unat (sz + 4095) = unat sz + 4095" by (simp add: unat_word_ariths)
  moreover have "PGROUNDUP sz = PGROUNDDOWN (sz + 4095)"
    by (simp add: PGROUNDUP_def PGROUNDDOWN_def add.commute)
  ultimately show ?thesis by (simp add: unat_PGROUNDDOWN)
qed

lemma mod_PGSIZE_iff: "p mod PGSIZE = 0 \<longleftrightarrow> 4096 dvd unat p"
  by (simp add: word_unat_eq_iff unat_mod_distrib dvd_eq_mod_eq_0)

lemma pages_apart:
  assumes "p mod PGSIZE = 0" and "q mod PGSIZE = 0" and "p \<noteq> q"
  shows "apart p 4096 q 4096"
proof -
  have far: "4096 \<le> unat (a - b)" if "4096 dvd unat a" "4096 dvd unat b" "a \<noteq> b" for a b :: u64
  proof -
    have "4096 dvd unat (a - b)"
      using that(1,2) unsigned_less [of b, where 'a = nat]
      by (auto simp: unat_sub_if_size word_size word_le_nat_alt dvd_diff_nat elim!: dvdE)
    moreover have "0 < unat (a - b)" using that(3) by (simp add: unat_gt_0)
    ultimately show ?thesis by (auto dest: dvd_imp_le)
  qed
  show ?thesis using far [of p q] far [of q p] assms by (simp add: apart_def mod_PGSIZE_iff)
qed

lemma apart_mono: "apart a n b k \<Longrightarrow> n' \<le> n \<Longrightarrow> k' \<le> k \<Longrightarrow> apart a n' b k'"
  by (simp add: apart_def)

lemma ld64_other_page:
  assumes "p mod PGSIZE = 0" and "q mod PGSIZE = 0" and "p \<noteq> q"
  shows "ld64 (memset m q c 4096) p = ld64 m p" and "ld64 (st64 m q v) p = ld64 m p"
  using apart_mono [OF pages_apart [OF assms], of 8 4096] apart_mono [OF pages_apart [OF assms], of 8 8]
  by (simp_all add: mem_simps)

subsection \<open>The free list\<close>

primrec flist :: "mem \<Rightarrow> u64 \<Rightarrow> u64 list \<Rightarrow> bool" where
  "flist m r [] = (r = 0)"
| "flist m r (p # ps) = (r = p \<and> p \<noteq> 0 \<and> flist m (ld64 m p) ps)"

lemma flist_cong: "(\<And>p. p \<in> set ps \<Longrightarrow> ld64 m p = ld64 m' p) \<Longrightarrow> flist m r ps = flist m' r ps"
  by (induction ps arbitrary: r) auto

definition kmem_inv :: "machine \<Rightarrow> u64 list \<Rightarrow> bool" where
  "kmem_inv m ps = (flist (pmem m) (freelist m) ps \<and> distinct ps \<and> (\<forall>p \<in> set ps. page_ok m p))"

lemma kalloc_empty:
  assumes "kmem_inv m []" and "lock_free KmemLock m" and "cpu_ok h m"
  shows "kalloc h m = Ok (0, touch h m)"
  using assms by (simp add: kalloc_def kmem_inv_def lock_simps)

lemma locked_by_upd [lock_simps]:
  "locked_by h lk m\<lparr>freelist := r\<rparr> = locked_by h lk (m\<lparr>freelist := r\<rparr>)"
  "locked_by h lk m\<lparr>pmem := w\<rparr> = locked_by h lk (m\<lparr>pmem := w\<rparr>)"
  by (simp_all add: locked_by_def upd_lock_def push_off_unfold upd_cpu_def)

lemma lock_free_upd [lock_simps]:
  "lock_free lk (m\<lparr>freelist := r\<rparr>) = lock_free lk m" "lock_free lk (m\<lparr>pmem := w\<rparr>) = lock_free lk m"
  "cpu_ok h (m\<lparr>freelist := r\<rparr>) = cpu_ok h m" "cpu_ok h (m\<lparr>pmem := w\<rparr>) = cpu_ok h m"
  by (simp_all add: lock_free_def cpu_ok_def)

lemma kalloc_page:
  assumes inv: "kmem_inv m (p # ps)" and "lock_free KmemLock m" and "cpu_ok h m"
  defines "m' \<equiv> (touch h (m\<lparr>freelist := ld64 (pmem m) p\<rparr>))\<lparr>pmem := memset (pmem m) p 5 4096\<rparr>"
  shows "kalloc h m = Ok (p, m')" and "kmem_inv m' ps"
proof -
  have "freelist m = p" and "p \<noteq> 0" using inv by (simp_all add: kmem_inv_def)
  then show "kalloc h m = Ok (p, m')"
    using assms(2,3) unfolding m'_def by (simp add: kalloc_def lock_simps)
  have al: "p mod PGSIZE = 0" using inv by (simp add: kmem_inv_def page_ok_def)
  have "ld64 (memset (pmem m) p 5 4096) q = ld64 (pmem m) q" if "q \<in> set ps" for q
  proof (rule ld64_other_page)
    show "q mod PGSIZE = 0" "q \<noteq> p" "p mod PGSIZE = 0"
      using that inv al by (auto simp: kmem_inv_def page_ok_def)
  qed
  then have "flist (memset (pmem m) p 5 4096) r ps = flist (pmem m) r ps" for r
    by (intro flist_cong)
  then show "kmem_inv m' ps"
    using inv by (simp add: kmem_inv_def m'_def page_ok_def)
qed

lemma kfree_page:
  assumes inv: "kmem_inv m ps" and "lock_free KmemLock m" and "cpu_ok h m"
    and ok: "page_ok m p" and new: "p \<notin> set ps"
  defines "m' \<equiv> touch h (m\<lparr>pmem := st64 (memset (pmem m) p 1 4096) p (freelist m), freelist := p\<rparr>)"
  shows "kfree h p m = Ok m'" and "kmem_inv m' (p # ps)"
proof -
  have "p mod PGSIZE = 0" and "kend m \<le> p" and "p < PHYSTOP" using ok by (simp_all add: page_ok_def)
  then show "kfree h p m = Ok m'"
    using assms(2,3) unfolding m'_def
    by (simp add: kfree_def lock_simps not_less not_le)
  have "ld64 (st64 (memset (pmem m) p 1 4096) p v) q = ld64 (pmem m) q" if "q \<in> set ps" for q v
  proof -
    have q: "q mod PGSIZE = 0" "q \<noteq> p" using that inv new by (auto simp: kmem_inv_def page_ok_def)
    show ?thesis
      using ld64_other_page [OF q(1) \<open>p mod PGSIZE = 0\<close> q(2)] by simp
  qed
  then have "flist (st64 (memset (pmem m) p 1 4096) p v) r ps = flist (pmem m) r ps" for r v
    by (intro flist_cong)
  then show "kmem_inv m' (p # ps)"
    using inv ok new by (simp add: kmem_inv_def m'_def page_ok_def mem_simps)
qed


declare freerange_loop.simps [simp del]

lemma kmem_inv_touch [lock_simps]: "kmem_inv (touch h m) ps = kmem_inv m ps"
  by (simp add: kmem_inv_def page_ok_def)

lemma aligned_next:
  "4096 dvd a \<Longrightarrow> 4096 dvd b \<Longrightarrow> a < b \<Longrightarrow> a + 4096 \<le> (b :: nat)"
  by (auto elim!: dvdE)

lemma freerange_loop_fills:
  "kmem_inv m ps \<Longrightarrow> lock_free KmemLock m \<Longrightarrow> cpu_ok h m \<Longrightarrow> p mod PGSIZE = 0 \<Longrightarrow> kend m \<le> p \<Longrightarrow>
   p \<noteq> 0 \<Longrightarrow> p \<le> PHYSTOP \<Longrightarrow> pa_end = PHYSTOP \<Longrightarrow> \<forall>q \<in> set ps. q < p \<Longrightarrow>
   \<exists>m' ps'. freerange_loop h p pa_end m = Ok m' \<and> kmem_inv m' ps' \<and> lock_free KmemLock m' \<and>
     cpu_ok h m' \<and> set ps' = set ps \<union> {q. p \<le> q \<and> q < PHYSTOP \<and> q mod PGSIZE = 0}"
proof (induction h p pa_end m arbitrary: ps rule: freerange_loop.induct)
  case (1 h p pa_end m)
  show ?case
  proof (cases "p + PGSIZE \<le> pa_end")
    case False
    have "unat p \<le> 0x88000000" using "1.prems"(7) by (simp add: word_le_nat_alt)
    then have "unat (p + PGSIZE) = unat p + 4096" by (simp add: unat_word_ariths)
    then have "\<not> unat p + 4096 \<le> 0x88000000" using False "1.prems"(8) by (simp add: word_le_nat_alt)
    moreover have "4096 dvd unat p" using "1.prems"(4) by (simp add: mod_PGSIZE_iff)
    ultimately have "\<not> unat p < 0x88000000"
      using aligned_next [of "unat p" "0x88000000"] by auto
    then have "q \<notin> {p..<PHYSTOP}" for q by (auto simp: word_le_nat_alt word_less_nat_alt)
    then have e: "{q. p \<le> q \<and> q < PHYSTOP \<and> q mod PGSIZE = 0} = {}" by auto
    have "freerange_loop h p pa_end m = Ok m"
      using False by (subst freerange_loop.simps) simp
    then show ?thesis unfolding e using "1.prems"(1-3) by (intro exI [of _ m] exI [of _ ps]) simp
  next
    case True
    have lt: "unat p < 0x88000000" and up: "unat (p + PGSIZE) = unat p + 4096"
    proof -
      have "unat p \<le> 0x88000000" using "1.prems"(7) by (simp add: word_le_nat_alt)
      then show "unat (p + PGSIZE) = unat p + 4096" by (simp add: unat_word_ariths)
      with True "1.prems"(8) show "unat p < 0x88000000" by (simp add: word_le_nat_alt)
    qed
    have ok: "page_ok m p" using "1.prems" lt by (simp add: page_ok_def word_less_nat_alt)
    have new: "p \<notin> set ps" using "1.prems"(9) by auto
    let ?m = "touch h (m\<lparr>pmem := st64 (memset (pmem m) p 1 4096) p (freelist m), freelist := p\<rparr>)"
    have k: "kfree h p m = Ok ?m" "kmem_inv ?m (p # ps)"
      using kfree_page [OF "1.prems"(1-3) ok new] by simp_all
    have "\<exists>m' ps'. freerange_loop h (p + PGSIZE) pa_end ?m = Ok m' \<and> kmem_inv m' ps' \<and>
        lock_free KmemLock m' \<and> cpu_ok h m' \<and>
        set ps' = set (p # ps) \<union> {q. p + PGSIZE \<le> q \<and> q < PHYSTOP \<and> q mod PGSIZE = 0}"
    proof (rule "1.IH" [OF True k(1) k(2)])
      show "lock_free KmemLock ?m" "cpu_ok h ?m" "pa_end = PHYSTOP"
        using "1.prems" by (simp_all add: lock_simps)
      show "(p + PGSIZE) mod PGSIZE = 0" using "1.prems"(4) up by (simp add: mod_PGSIZE_iff)
      show "kend ?m \<le> p + PGSIZE" "p + PGSIZE \<noteq> 0" "p + PGSIZE \<le> PHYSTOP"
        using "1.prems"(5,8) True up by (auto simp: word_le_nat_alt word_unat_eq_iff)
      show "\<forall>q \<in> set (p # ps). q < p + PGSIZE"
        using "1.prems"(9) up by (auto simp: word_less_nat_alt)
    qed
    then obtain m' ps' where r: "freerange_loop h (p + PGSIZE) pa_end ?m = Ok m'" "kmem_inv m' ps'"
        "lock_free KmemLock m'" "cpu_ok h m'"
        "set ps' = set (p # ps) \<union> {q. p + PGSIZE \<le> q \<and> q < PHYSTOP \<and> q mod PGSIZE = 0}" by blast
    have "{q. p \<le> q \<and> q < PHYSTOP \<and> q mod PGSIZE = 0} =
        insert p {q. p + PGSIZE \<le> q \<and> q < PHYSTOP \<and> q mod PGSIZE = 0}" (is "?L = ?R")
    proof -
      have a: "q = p \<or> p + PGSIZE \<le> q" if "p \<le> q" "q mod PGSIZE = 0" for q
      proof -
        have "4096 dvd unat p" "4096 dvd unat q" "unat p \<le> unat q"
          using that "1.prems"(4) by (simp_all add: mod_PGSIZE_iff word_le_nat_alt)
        then have "unat q = unat p \<or> unat p + 4096 \<le> unat q"
          using aligned_next [of "unat p" "unat q"] by linarith
        then show ?thesis using up by (simp add: word_le_nat_alt word_unat_eq_iff)
      qed
      have b: "p \<le> q" if "p + PGSIZE \<le> q" for q
        using that up by (simp add: word_le_nat_alt)
      have "p < PHYSTOP" using lt by (simp add: word_less_nat_alt)
      with "1.prems"(4) have "x \<in> ?L \<longleftrightarrow> x \<in> ?R" for x
        unfolding mem_Collect_eq insert_iff using a [of x] b [of x] order_refl [of p] by metis
      then show ?thesis by (rule set_eqI)
    qed
    then have "set ps' = set ps \<union> {q. p \<le> q \<and> q < PHYSTOP \<and> q mod PGSIZE = 0}"
      using r(5) by simp
    moreover have "freerange_loop h p pa_end m = Ok m'"
      using True k(1) r(1) by (subst freerange_loop.simps) simp
    ultimately show ?thesis using r(2-4) by blast
  qed
qed


lemma kmem_inv_empty: "freelist m = 0 \<Longrightarrow> kmem_inv m []"
  by (simp add: kmem_inv_def)

text \<open>
  C4. kinit puts every usable page on the free list, once: starting with an empty list, the boot
  code of the allocator returns, and the list then holds exactly the page-aligned addresses from the
  first page boundary at or after the end of the kernel up to PHYSTOP, without repetition.
\<close>

theorem kinit_frees_every_page:
  assumes "freelist m = 0" and "0 < kend m" and "kend m \<le> PHYSTOP" and "cpu_ok h m"
  shows "\<exists>m' ps. kinit h m = Ok m' \<and> kmem_inv m' ps \<and> distinct ps \<and> lock_free KmemLock m' \<and>
    set ps = {p. PGROUNDUP (kend m) \<le> p \<and> p < PHYSTOP \<and> p mod PGSIZE = 0}"
proof -
  let ?m = "initlock KmemLock ''kmem'' m" and ?p = "PGROUNDUP (kend m)"
  have e: "unat (kend m) \<le> 0x88000000" "0 < unat (kend m)"
    using assms(2,3) by (simp_all add: word_le_nat_alt word_less_nat_alt)
  then have u: "unat ?p = (unat (kend m) + 4095) div 4096 * 4096" by (simp add: unat_PGROUNDUP)
  have "\<exists>m' ps. freerange_loop h ?p PHYSTOP ?m = Ok m' \<and> kmem_inv m' ps \<and> lock_free KmemLock m' \<and>
     cpu_ok h m' \<and> set ps = set [] \<union> {q. ?p \<le> q \<and> q < PHYSTOP \<and> q mod PGSIZE = 0}"
  proof (rule freerange_loop_fills)
    show "kmem_inv ?m []" using assms(1) by (simp add: kmem_inv_empty initlock_def)
    show "lock_free KmemLock ?m" "cpu_ok h ?m"
      using assms(4) by (simp_all add: initlock_def lock_free_def cpu_ok_def)
    show "?p mod PGSIZE = 0" using u by (simp add: mod_PGSIZE_iff)
    have "unat (kend m) \<le> unat ?p" unfolding u by linarith
    then show "kend ?m \<le> ?p" by (simp add: initlock_def word_le_nat_alt)
    show "?p \<noteq> 0" using \<open>unat (kend m) \<le> unat ?p\<close> e(2) by auto
    show "?p \<le> PHYSTOP" unfolding word_le_nat_alt u using e(1) by simp
  qed simp_all
  then show ?thesis
    by (auto simp: kinit_def freerange_def Let_def initlock_def kmem_inv_def)
qed

theorem kinit_frees_every_page_witness:
  "\<exists>m' ps. kinit 0 (idle_machine\<lparr>kend := 0x87ffe800\<rparr>) = Ok m' \<and> kmem_inv m' ps \<and>
     set ps = {p. PGROUNDUP 0x87ffe800 \<le> p \<and> p < PHYSTOP \<and> p mod PGSIZE = 0}"
proof -
  have "cpu_ok 0 (idle_machine\<lparr>kend := 0x87ffe800\<rparr>)" by (simp add: cpu_ok_def idle_machine_def)
  then show ?thesis
    using kinit_frees_every_page [of "idle_machine\<lparr>kend := 0x87ffe800\<rparr>" 0]
    by (auto simp: idle_machine_def)
qed

subsection \<open>What the allocator promises\<close>

text \<open>
  \<open>inv s ps\<close>: the state is sound and \<open>ps\<close> are the free pages.  The client below takes pages and
  gives back pages that it holds, in any order.
\<close>

inductive page_client :: "('s \<Rightarrow> (u64 \<times> 's) res) \<Rightarrow> (u64 \<Rightarrow> 's \<Rightarrow> 's res) \<Rightarrow>
    's \<Rightarrow> u64 set \<Rightarrow> 's \<Rightarrow> u64 set \<Rightarrow> bool" for alloc dealloc s0 held0 where
  start: "page_client alloc dealloc s0 held0 s0 held0"
| take_page: "page_client alloc dealloc s0 held0 s held \<Longrightarrow> alloc s = Ok (p, s') \<Longrightarrow>
    page_client alloc dealloc s0 held0 s' (if p = 0 then held else insert p held)"
| give_page: "page_client alloc dealloc s0 held0 s held \<Longrightarrow> p \<in> held \<Longrightarrow> dealloc p s = Ok s' \<Longrightarrow>
    page_client alloc dealloc s0 held0 s' (held - {p})"

locale page_allocator =
  fixes alloc :: "'s \<Rightarrow> (u64 \<times> 's) res"
    and dealloc :: "u64 \<Rightarrow> 's \<Rightarrow> 's res"
    and inv :: "'s \<Rightarrow> u64 list \<Rightarrow> bool"
    and usable :: "'s \<Rightarrow> u64 \<Rightarrow> bool"
  assumes alloc_empty: "inv s [] \<Longrightarrow> \<exists>s'. alloc s = Ok (0, s') \<and> inv s' [] \<and> usable s' = usable s"
    and alloc_page: "inv s (p # ps) \<Longrightarrow>
      \<exists>s'. alloc s = Ok (p, s') \<and> inv s' ps \<and> usable s' = usable s"
    and dealloc_page: "inv s ps \<Longrightarrow> usable s p \<Longrightarrow> p \<notin> set ps \<Longrightarrow>
      \<exists>s'. dealloc p s = Ok s' \<and> inv s' (p # ps) \<and> usable s' = usable s"
    and inv_pages: "inv s ps \<Longrightarrow> distinct ps \<and> (\<forall>p \<in> set ps. usable s p \<and> p \<noteq> 0)"
begin

lemma client_conserves:
  assumes "page_client alloc dealloc s0 held0 s held" and "inv s0 ps0" and "set ps0 \<inter> held0 = {}"
    and "\<forall>p \<in> held0. usable s0 p \<and> p \<noteq> 0"
  shows "\<exists>ps. inv s ps \<and> set ps \<inter> held = {} \<and> set ps \<union> held = set ps0 \<union> held0 \<and>
    (\<forall>p \<in> held. usable s p \<and> p \<noteq> 0)"
  using assms(1)
proof (induction rule: page_client.induct)
  case start
  then show ?case using assms(2-4) by blast
next
  case (take_page s held p s')
  then obtain ps where ps: "inv s ps" "set ps \<inter> held = {}" "set ps \<union> held = set ps0 \<union> held0"
      "\<forall>p \<in> held. usable s p \<and> p \<noteq> 0" by blast
  show ?case
  proof (cases ps)
    case Nil
    then have "p = 0" and "inv s' []" and "usable s' = usable s"
      using alloc_empty [of s] ps(1) take_page.hyps(2) by auto
    then show ?thesis using ps Nil by auto
  next
    case (Cons q qs)
    then have "p = q" and "inv s' qs" and "usable s' = usable s"
      using alloc_page [of s q qs] ps(1) take_page.hyps(2) by auto
    moreover have "q \<noteq> 0" "q \<notin> set qs" "usable s q" using inv_pages [OF ps(1)] Cons by auto
    ultimately show ?thesis using ps Cons by (intro exI [of _ qs]) auto
  qed
next
  case (give_page s held p s')
  then obtain ps where ps: "inv s ps" "set ps \<inter> held = {}" "set ps \<union> held = set ps0 \<union> held0"
      "\<forall>p \<in> held. usable s p \<and> p \<noteq> 0" by blast
  then have "p \<notin> set ps" "usable s p" using give_page.hyps by auto
  then have "inv s' (p # ps)" and "usable s' = usable s"
    using dealloc_page [OF ps(1), of p] give_page.hyps(3) by auto
  then show ?case using ps give_page.hyps(2) by (intro exI [of _ "p # ps"]) auto
qed

end

definition kalloc_inv :: "nat \<Rightarrow> machine \<Rightarrow> u64 list \<Rightarrow> bool" where
  "kalloc_inv h m ps = (kmem_inv m ps \<and> lock_free KmemLock m \<and> cpu_ok h m)"

interpretation kpages: page_allocator "kalloc h" "kfree h" "kalloc_inv h" page_ok
proof
  fix s assume "kalloc_inv h s []"
  then show "\<exists>s'. kalloc h s = Ok (0, s') \<and> kalloc_inv h s' [] \<and> page_ok s' = page_ok s"
    by (intro exI [of _ "touch h s"])
      (auto simp: kalloc_inv_def kalloc_empty lock_simps page_ok_def fun_eq_iff)
next
  fix s p ps assume i: "kalloc_inv h s (p # ps)"
  let ?s = "(touch h (s\<lparr>freelist := ld64 (pmem s) p\<rparr>))\<lparr>pmem := memset (pmem s) p 5 4096\<rparr>"
  have "kalloc h s = Ok (p, ?s)" "kmem_inv ?s ps"
    using i kalloc_page [of s p ps h] by (simp_all add: kalloc_inv_def)
  then show "\<exists>s'. kalloc h s = Ok (p, s') \<and> kalloc_inv h s' ps \<and> page_ok s' = page_ok s"
    using i by (intro exI [of _ ?s]) (auto simp: kalloc_inv_def lock_simps page_ok_def fun_eq_iff)
next
  fix s ps p assume i: "kalloc_inv h s ps" and p: "page_ok s p" "p \<notin> set ps"
  let ?s = "touch h (s\<lparr>pmem := st64 (memset (pmem s) p 1 4096) p (freelist s), freelist := p\<rparr>)"
  have "kfree h p s = Ok ?s" "kmem_inv ?s (p # ps)"
    using i p kfree_page [of s ps h p] by (simp_all add: kalloc_inv_def)
  then show "\<exists>s'. kfree h p s = Ok s' \<and> kalloc_inv h s' (p # ps) \<and> page_ok s' = page_ok s"
    using i by (intro exI [of _ ?s]) (auto simp: kalloc_inv_def lock_simps page_ok_def fun_eq_iff)
next
  fix s ps assume "kalloc_inv h s ps"
  then show "distinct ps \<and> (\<forall>p \<in> set ps. page_ok s p \<and> p \<noteq> 0)"
    by (auto simp: kalloc_inv_def kmem_inv_def page_ok_def)
qed

text \<open>
  C5. No page is lost or handed out twice: over any sequence of kalloc calls and kfree calls on
  pages that are held, the pages held and the pages on the free list stay disjoint and together
  are the pages there were at the start.
\<close>

theorem pages_conserved:
  assumes "page_client (kalloc h) (kfree h) m0 held0 m held" and "kalloc_inv h m0 ps0" and "set ps0 \<inter> held0 = {}"
    and "\<forall>p \<in> held0. page_ok m0 p"
  shows "\<exists>ps. kalloc_inv h m ps \<and> set ps \<inter> held = {} \<and> set ps \<union> held = set ps0 \<union> held0"
  using kpages.client_conserves [OF assms(1-3)] assms(4) by (auto simp: page_ok_def)

theorem pages_conserved_witness:
  "\<exists>m ps. page_client (kalloc 0) (kfree 0) idle_machine {0x80022000} m {} \<and>
     kalloc_inv 0 m ps \<and> set ps = {0x80022000}"
proof -
  have i: "kalloc_inv 0 idle_machine []" and ok: "page_ok idle_machine 0x80022000"
    by (simp_all add: kalloc_inv_def idle_machine_def kmem_inv_empty lock_free_def cpu_ok_def page_ok_def)
  then obtain m where "kfree 0 0x80022000 idle_machine = Ok m"
    using kpages.dealloc_page [of 0 idle_machine "[]" "0x80022000"] by auto
  then have run: "page_client (kalloc 0) (kfree 0) idle_machine {0x80022000} m {}"
    using page_client.give_page [OF page_client.start, of "0x80022000"] by fastforce
  show ?thesis using run pages_conserved [OF run i] ok by auto
qed

end
