(* ===== verification/Vm.thy ===== *)
theory Vm
  imports Kalloc
begin

text \<open>
  Kernel/vm.c and the page-table macros of kernel/riscv.h: Sv39 page tables, kept in physical
  memory.  A \<open>pagetable_t\<close> is the physical address of a table of 512 eight-byte entries.  The
  buffers on the kernel's side of \<open>copyout\<close>, \<open>copyin\<close> and \<open>copyinstr\<close> are lists of bytes: the bytes
  to copy, or the bytes that were copied before the call returned (on an error too).
\<close>

unbundle bit_operations_syntax

section \<open>Page-table entries\<close>

abbreviation PTE_V :: u64 where "PTE_V \<equiv> 1"
abbreviation PTE_R :: i32 where "PTE_R \<equiv> 2"
abbreviation PTE_W :: i32 where "PTE_W \<equiv> 4"
abbreviation PTE_X :: i32 where "PTE_X \<equiv> 8"
abbreviation PTE_U :: i32 where "PTE_U \<equiv> 16"

definition PA2PTE :: "u64 \<Rightarrow> u64" where
  "PA2PTE pa = push_bit 10 (drop_bit 12 pa)"

definition PTE2PA :: "u64 \<Rightarrow> u64" where
  "PTE2PA pte = push_bit 12 (drop_bit 10 pte)"

definition PTE_FLAGS :: "u64 \<Rightarrow> u64" where
  "PTE_FLAGS pte = pte AND 0x3FF"

definition PX :: "nat \<Rightarrow> u64 \<Rightarrow> u64" where
  "PX level va = drop_bit (12 + 9 * level) va AND 0x1FF"

abbreviation MAXVA :: u64 where "MAXVA \<equiv> 0x4000000000"
abbreviation TRAMPOLINE :: u64 where "TRAMPOLINE \<equiv> MAXVA - PGSIZE"
abbreviation TRAPFRAME :: u64 where "TRAPFRAME \<equiv> TRAMPOLINE - PGSIZE"

definition KSTACK :: "nat \<Rightarrow> u64" where
  "KSTACK p = TRAMPOLINE - (of_nat p + 1) * 2 * PGSIZE"

section \<open>Walking and mapping\<close>

primrec walk_loop :: "nat \<Rightarrow> nat \<Rightarrow> u64 \<Rightarrow> u64 \<Rightarrow> bool \<Rightarrow> machine \<Rightarrow> (u64 \<times> machine) res" where
  "walk_loop 0 h pagetable va alloc m = Ok (pagetable + 8 * PX 0 va, m)"
| "walk_loop (Suc l) h pagetable va alloc m =
    (let pte = pagetable + 8 * PX (Suc l) va; e = ld64 (pmem m) pte
     in if e AND PTE_V \<noteq> 0 then walk_loop l h (PTE2PA e) va alloc m
        else if \<not> alloc then Ok (0, m)
        else kbind (kalloc h m) (\<lambda>(pt, m).
          if pt = 0 then Ok (0, m)
          else walk_loop l h pt va alloc
            (m\<lparr>pmem := st64 (memset (pmem m) pt 0 4096) pte (PA2PTE pt OR PTE_V)\<rparr>)))"

definition walk :: "nat \<Rightarrow> u64 \<Rightarrow> u64 \<Rightarrow> bool \<Rightarrow> machine \<Rightarrow> (u64 \<times> machine) res" where
  "walk h pagetable va alloc m =
    (if va \<ge> MAXVA then Panic ''walk'' else walk_loop 2 h pagetable va alloc m)"

definition walkaddr :: "nat \<Rightarrow> u64 \<Rightarrow> u64 \<Rightarrow> machine \<Rightarrow> u64 res" where
  "walkaddr h pagetable va m =
    (if va \<ge> MAXVA then Ok 0
     else kbind (walk h pagetable va False m) (\<lambda>(pte, _).
       if pte = 0 then Ok 0
       else let e = ld64 (pmem m) pte
            in if e AND PTE_V = 0 then Ok 0
               else if e AND ucast PTE_U = 0 then Ok 0
               else Ok (PTE2PA e)))"

lemma walk_Ok_va: "walk h pt va alloc m = Ok r \<Longrightarrow> va < MAXVA"
  by (auto simp: walk_def not_le split: if_splits)

lemma next_page: "a < MAXVA \<Longrightarrow> unat (a + PGSIZE) = unat a + 4096 \<and> unat a < 0x4000000000"
  by (simp add: word_less_nat_alt unat_word_ariths)

lemma next_page_measure: "a < MAXVA \<Longrightarrow> 0x4000000000 - unat (a + PGSIZE) < 0x4000000000 - unat a"
  using next_page [of a] by linarith

function mappages_loop ::
    "nat \<Rightarrow> u64 \<Rightarrow> u64 \<Rightarrow> u64 \<Rightarrow> u64 \<Rightarrow> i32 \<Rightarrow> machine \<Rightarrow> (i32 \<times> machine) res" where
  "mappages_loop h pagetable a lasta pa perm m =
    kbind (walk h pagetable a True m) (\<lambda>(pte, m).
    if pte = 0 then Ok (- 1, m)
    else if ld64 (pmem m) pte AND PTE_V \<noteq> 0 then Panic ''remap''
    else let m = m\<lparr>pmem := st64 (pmem m) pte (PA2PTE pa OR scast perm OR PTE_V)\<rparr>
         in if a = lasta then Ok (0, m)
            else mappages_loop h pagetable (a + PGSIZE) lasta (pa + PGSIZE) perm m)"
  by pat_completeness auto
termination
  by (relation "measure (\<lambda>(h, pt, a, l, pa, p, m). 0x4000000000 - unat a)")
    (auto dest!: walk_Ok_va next_page_measure)

definition mappages :: "nat \<Rightarrow> u64 \<Rightarrow> u64 \<Rightarrow> u64 \<Rightarrow> u64 \<Rightarrow> i32 \<Rightarrow> machine \<Rightarrow> (i32 \<times> machine) res" where
  "mappages h pagetable va sz pa perm m =
    mappages_loop h pagetable (PGROUNDDOWN va) (PGROUNDDOWN (va + sz - 1)) pa perm m"

definition kvmmap :: "nat \<Rightarrow> u64 \<Rightarrow> u64 \<Rightarrow> u64 \<Rightarrow> u64 \<Rightarrow> i32 \<Rightarrow> machine \<Rightarrow> machine res" where
  "kvmmap h kpgtbl va pa sz perm m =
    kbind (mappages h kpgtbl va sz pa perm m) (\<lambda>(r, m). if r \<noteq> 0 then Panic ''kvmmap'' else Ok m)"

function uvmunmap_loop :: "nat \<Rightarrow> u64 \<Rightarrow> u64 \<Rightarrow> u64 \<Rightarrow> bool \<Rightarrow> machine \<Rightarrow> machine res" where
  "uvmunmap_loop h pagetable a lasta do_free m =
    (if a < lasta then
       kbind (walk h pagetable a False m) (\<lambda>(pte, m).
       if pte = 0 then Panic ''uvmunmap: walk''
       else let e = ld64 (pmem m) pte
            in if e AND PTE_V = 0 then Panic ''uvmunmap: not mapped''
               else if PTE_FLAGS e = PTE_V then Panic ''uvmunmap: not a leaf''
               else kbind (if do_free then kfree h (PTE2PA e) m else Ok m) (\<lambda>m.
                 uvmunmap_loop h pagetable (a + PGSIZE) lasta do_free
                   (m\<lparr>pmem := st64 (pmem m) pte 0\<rparr>)))
     else Ok m)"
  by pat_completeness auto
termination
  by (relation "measure (\<lambda>(h, pt, a, l, f, m). 0x4000000000 - unat a)")
    (auto dest!: walk_Ok_va next_page_measure)

definition uvmunmap :: "nat \<Rightarrow> u64 \<Rightarrow> u64 \<Rightarrow> u64 \<Rightarrow> bool \<Rightarrow> machine \<Rightarrow> machine res" where
  "uvmunmap h pagetable va npages do_free m =
    (if va mod PGSIZE \<noteq> 0 then Panic ''uvmunmap: not aligned''
     else uvmunmap_loop h pagetable va (va + npages * PGSIZE) do_free m)"

section \<open>User address spaces\<close>

definition uvmcreate :: "nat \<Rightarrow> machine \<Rightarrow> (u64 \<times> machine) res" where
  "uvmcreate h m =
    kbind (kalloc h m) (\<lambda>(pagetable, m).
    if pagetable = 0 then Ok (0, m)
    else Ok (pagetable, m\<lparr>pmem := memset (pmem m) pagetable 0 4096\<rparr>))"

text \<open>Bytes of a kernel object moved into memory, and the other way round.\<close>

primrec put :: "mem \<Rightarrow> u64 \<Rightarrow> u8 list \<Rightarrow> mem" where
  "put m a [] = m"
| "put m a (b # bs) = put (m(a := b)) (a + 1) bs"

definition get :: "mem \<Rightarrow> u64 \<Rightarrow> nat \<Rightarrow> u8 list" where
  "get m a n = map (\<lambda>i. m (a + of_nat i)) [0..<n]"

definition uvminit :: "nat \<Rightarrow> u64 \<Rightarrow> u8 list \<Rightarrow> machine \<Rightarrow> machine res" where
  "uvminit h pagetable src m =
    (if length src \<ge> 4096 then Panic ''inituvm: more than a page''
     else kbind (kalloc h m) (\<lambda>(p, m).
       if p = 0 then Undef
       else let m = m\<lparr>pmem := memset (pmem m) p 0 4096\<rparr>
            in kbind (mappages h pagetable 0 PGSIZE p (PTE_W OR PTE_R OR PTE_X OR PTE_U) m) (\<lambda>(_, m).
               Ok (m\<lparr>pmem := put (pmem m) p src\<rparr>))))"

definition uvmdealloc :: "nat \<Rightarrow> u64 \<Rightarrow> u64 \<Rightarrow> u64 \<Rightarrow> machine \<Rightarrow> (u64 \<times> machine) res" where
  "uvmdealloc h pagetable oldsz newsz m =
    (if newsz \<ge> oldsz then Ok (oldsz, m)
     else if PGROUNDUP newsz < PGROUNDUP oldsz then
       let npages = (ucast ((PGROUNDUP oldsz - PGROUNDUP newsz) div PGSIZE) :: i32)
       in kbind (uvmunmap h pagetable (PGROUNDUP newsz) (scast npages) True m) (\<lambda>m. Ok (newsz, m))
     else Ok (newsz, m))"

lemma mappages_Ok_va: "mappages_loop h pt a lasta pa perm m = Ok r \<Longrightarrow> a < MAXVA"
  by (subst (asm) mappages_loop.simps) (auto dest: walk_Ok_va simp: kbind_eq_Ok)

declare mappages_loop.simps [simp del] uvmunmap_loop.simps [simp del]

lemma PGROUNDDOWN_MAXVA: "PGROUNDDOWN a < MAXVA \<Longrightarrow> a < MAXVA"
  by (simp add: word_less_nat_alt unat_PGROUNDDOWN)

function uvmalloc_loop :: "nat \<Rightarrow> u64 \<Rightarrow> u64 \<Rightarrow> u64 \<Rightarrow> u64 \<Rightarrow> machine \<Rightarrow> (u64 \<times> machine) res" where
  "uvmalloc_loop h pagetable oldsz a newsz m =
    (if a < newsz then
       kbind (kalloc h m) (\<lambda>(p, m).
       if p = 0 then kbind (uvmdealloc h pagetable a oldsz m) (\<lambda>(_, m). Ok (0, m))
       else kbind (mappages h pagetable a PGSIZE p (PTE_W OR PTE_X OR PTE_R OR PTE_U)
                 (m\<lparr>pmem := memset (pmem m) p 0 4096\<rparr>)) (\<lambda>(r, m).
            if r \<noteq> 0 then
              kbind (kfree h p m) (\<lambda>m.
              kbind (uvmdealloc h pagetable a oldsz m) (\<lambda>(_, m). Ok (0, m)))
            else uvmalloc_loop h pagetable oldsz (a + PGSIZE) newsz m))
     else Ok (newsz, m))"
  by pat_completeness auto
termination
  by (relation "measure (\<lambda>(h, pt, oldsz, a, newsz, m). 0x4000000000 - unat a)")
    (auto simp: mappages_def intro!: next_page_measure dest!: mappages_Ok_va PGROUNDDOWN_MAXVA)

definition uvmalloc :: "nat \<Rightarrow> u64 \<Rightarrow> u64 \<Rightarrow> u64 \<Rightarrow> machine \<Rightarrow> (u64 \<times> machine) res" where
  "uvmalloc h pagetable oldsz newsz m =
    (if newsz < oldsz then Ok (oldsz, m)
     else uvmalloc_loop h pagetable (PGROUNDUP oldsz) (PGROUNDUP oldsz) newsz m)"

text \<open>
  \<open>freewalk\<close> calls itself on every table below; the first argument bounds the depth of that
  recursion, which the code bounds only by the shape of the tables.
\<close>

primrec freewalk_loop :: "(u64 \<Rightarrow> machine \<Rightarrow> machine res) \<Rightarrow> u64 \<Rightarrow> nat list \<Rightarrow> machine \<Rightarrow> machine res" where
  "freewalk_loop rec pagetable [] m = Ok m"
| "freewalk_loop rec pagetable (i # is) m =
    (let pte = ld64 (pmem m) (pagetable + 8 * of_nat i)
     in if pte AND PTE_V \<noteq> 0 \<and> pte AND ucast (PTE_R OR PTE_W OR PTE_X) = 0 then
          kbind (rec (PTE2PA pte) m) (\<lambda>m.
          freewalk_loop rec pagetable is (m\<lparr>pmem := st64 (pmem m) (pagetable + 8 * of_nat i) 0\<rparr>))
        else if pte AND PTE_V \<noteq> 0 then Panic ''freewalk: leaf''
        else freewalk_loop rec pagetable is m)"

primrec freewalk :: "nat \<Rightarrow> nat \<Rightarrow> u64 \<Rightarrow> machine \<Rightarrow> machine res" where
  "freewalk 0 h pagetable m = Spins"
| "freewalk (Suc d) h pagetable m =
    kbind (freewalk_loop (freewalk d h) pagetable [0..<512] m) (kfree h pagetable)"

definition uvmfree :: "nat \<Rightarrow> nat \<Rightarrow> u64 \<Rightarrow> u64 \<Rightarrow> machine \<Rightarrow> machine res" where
  "uvmfree d h pagetable sz m =
    kbind (if sz > 0 then uvmunmap h pagetable 0 (PGROUNDUP sz div PGSIZE) True m else Ok m)
      (freewalk d h pagetable)"

function uvmcopy_loop :: "nat \<Rightarrow> u64 \<Rightarrow> u64 \<Rightarrow> u64 \<Rightarrow> u64 \<Rightarrow> machine \<Rightarrow> (i32 \<times> machine) res" where
  "uvmcopy_loop h old new i sz m =
    (if i < sz then
       kbind (walk h old i False m) (\<lambda>(pte, m).
       if pte = 0 then Panic ''uvmcopy: pte should exist''
       else let e = ld64 (pmem m) pte
            in if e AND PTE_V = 0 then Panic ''uvmcopy: page not present''
               else let pa = PTE2PA e; flags = (ucast (PTE_FLAGS e) :: u32)
                    in kbind (kalloc h m) (\<lambda>(p, m).
                       if p = 0 then kbind (uvmunmap h new 0 (i div PGSIZE) True m) (\<lambda>m. Ok (- 1, m))
                       else kbind (mappages h new i PGSIZE p flags
                                 (m\<lparr>pmem := memmove (pmem m) p pa 4096\<rparr>)) (\<lambda>(r, m).
                            if r \<noteq> 0 then
                              kbind (kfree h p m) (\<lambda>m.
                              kbind (uvmunmap h new 0 (i div PGSIZE) True m) (\<lambda>m. Ok (- 1, m)))
                            else uvmcopy_loop h old new (i + PGSIZE) sz m)))
     else Ok (0, m))"
  by pat_completeness auto
termination
  by (relation "measure (\<lambda>(h, old, new, i, sz, m). 0x4000000000 - unat i)")
    (auto dest!: walk_Ok_va next_page_measure)

definition uvmcopy :: "nat \<Rightarrow> u64 \<Rightarrow> u64 \<Rightarrow> u64 \<Rightarrow> machine \<Rightarrow> (i32 \<times> machine) res" where
  "uvmcopy h old new sz m = uvmcopy_loop h old new 0 sz m"

definition uvmclear :: "nat \<Rightarrow> u64 \<Rightarrow> u64 \<Rightarrow> machine \<Rightarrow> machine res" where
  "uvmclear h pagetable va m =
    kbind (walk h pagetable va False m) (\<lambda>(pte, m).
    if pte = 0 then Panic ''uvmclear''
    else Ok (m\<lparr>pmem := st64 (pmem m) pte (ld64 (pmem m) pte AND NOT (ucast PTE_U))\<rparr>))"

section \<open>Copying between the kernel and user space\<close>

text \<open>The number of bytes from \<open>va\<close> to the end of its page, at most \<open>len\<close>.\<close>

definition chunk :: "u64 \<Rightarrow> nat \<Rightarrow> nat" where
  "chunk va len = min (unat (PGSIZE - (va - PGROUNDDOWN va))) len"

lemma page_offset: "unat (va - PGROUNDDOWN va) = unat va mod 4096"
proof -
  have "unat (PGROUNDDOWN va) \<le> unat va" by (simp add: unat_PGROUNDDOWN)
  then show ?thesis
    by (simp add: unat_sub_if_size word_size word_le_nat_alt unat_PGROUNDDOWN minus_div_mult_eq_mod)
qed

lemma chunk_eq: "chunk va len = min (4096 - unat va mod 4096) len"
proof -
  have "unat (PGSIZE - x) = 4096 - unat x" if "unat x < 4096" for x :: u64
    using that by (simp add: unat_sub_if_size word_size word_le_nat_alt)
  from this [of "va - PGROUNDDOWN va"] show ?thesis by (simp add: chunk_def page_offset)
qed

lemma chunk_pos: "0 < len \<Longrightarrow> 0 < chunk va len"
  by (simp add: chunk_eq)

function copyout :: "nat \<Rightarrow> u64 \<Rightarrow> u64 \<Rightarrow> u8 list \<Rightarrow> machine \<Rightarrow> (i32 \<times> machine) res" where
  "copyout h pagetable dstva src m =
    (if src \<noteq> [] then
       let va0 = PGROUNDDOWN dstva
       in kbind (walkaddr h pagetable va0 m) (\<lambda>pa0.
          if pa0 = 0 then Ok (- 1, m)
          else let n = chunk dstva (length src)
               in copyout h pagetable (va0 + PGSIZE) (drop n src)
                    (m\<lparr>pmem := put (pmem m) (pa0 + (dstva - va0)) (take n src)\<rparr>))
     else Ok (0, m))"
  by pat_completeness auto
termination
  by (relation "measure (\<lambda>(h, pt, d, src, m). length src)") (auto simp: chunk_pos)

function copyin :: "nat \<Rightarrow> u64 \<Rightarrow> u64 \<Rightarrow> nat \<Rightarrow> machine \<Rightarrow> (i32 \<times> u8 list) res" where
  "copyin h pagetable srcva len m =
    (if len > 0 then
       let va0 = PGROUNDDOWN srcva
       in kbind (walkaddr h pagetable va0 m) (\<lambda>pa0.
          if pa0 = 0 then Ok (- 1, [])
          else let n = chunk srcva len
               in kbind (copyin h pagetable (va0 + PGSIZE) (len - n) m) (\<lambda>(r, bs).
                  Ok (r, get (pmem m) (pa0 + (srcva - va0)) n @ bs)))
     else Ok (0, []))"
  by pat_completeness auto
termination
  by (relation "measure (\<lambda>(h, pt, s, len, m). len)") (auto simp: chunk_pos)

text \<open>
  The inner loop of \<open>copyinstr\<close> on the \<open>n\<close> bytes at \<open>p\<close>: the bytes stored, and whether the last of
  them is the terminator.
\<close>

primrec copyinstr_chunk :: "nat \<Rightarrow> mem \<Rightarrow> u64 \<Rightarrow> u8 list \<times> bool" where
  "copyinstr_chunk 0 m p = ([], False)"
| "copyinstr_chunk (Suc n) m p =
    (if m p = 0 then ([0], True)
     else let (bs, got_null) = copyinstr_chunk n m (p + 1) in (m p # bs, got_null))"

function copyinstr :: "nat \<Rightarrow> u64 \<Rightarrow> u64 \<Rightarrow> nat \<Rightarrow> machine \<Rightarrow> (i32 \<times> u8 list) res" where
  "copyinstr h pagetable srcva maxlen m =
    (if maxlen > 0 then
       let va0 = PGROUNDDOWN srcva
       in kbind (walkaddr h pagetable va0 m) (\<lambda>pa0.
          if pa0 = 0 then Ok (- 1, [])
          else let n = chunk srcva maxlen;
                   (bs, got_null) = copyinstr_chunk n (pmem m) (pa0 + (srcva - va0))
               in if got_null then Ok (0, bs)
                  else kbind (copyinstr h pagetable (va0 + PGSIZE) (maxlen - n) m) (\<lambda>(r, bs').
                    Ok (r, bs @ bs')))
     else Ok (- 1, []))"
  by pat_completeness auto
termination
  by (relation "measure (\<lambda>(h, pt, s, n, m). n)") (auto simp: chunk_pos)

declare uvmalloc_loop.simps [simp del] uvmcopy_loop.simps [simp del] copyout.simps [simp del]
  copyin.simps [simp del] copyinstr.simps [simp del]

section \<open>The kernel's own page table\<close>

abbreviation NPROC :: nat where "NPROC \<equiv> 64"
abbreviation UART0 :: u64 where "UART0 \<equiv> 0x10000000"
abbreviation VIRTIO0 :: u64 where "VIRTIO0 \<equiv> 0x10001000"
abbreviation PLIC :: u64 where "PLIC \<equiv> 0x0c000000"

primrec proc_mapstacks_loop :: "nat \<Rightarrow> u64 \<Rightarrow> nat list \<Rightarrow> machine \<Rightarrow> machine res" where
  "proc_mapstacks_loop h kpgtbl [] m = Ok m"
| "proc_mapstacks_loop h kpgtbl (p # ps) m =
    kbind (kalloc h m) (\<lambda>(pa, m).
    if pa = 0 then Panic ''kalloc''
    else kbind (kvmmap h kpgtbl (KSTACK p) pa PGSIZE (PTE_R OR PTE_W) m)
           (proc_mapstacks_loop h kpgtbl ps))"

definition proc_mapstacks :: "nat \<Rightarrow> u64 \<Rightarrow> machine \<Rightarrow> machine res" where
  "proc_mapstacks h kpgtbl m = proc_mapstacks_loop h kpgtbl [0..<NPROC] m"

text \<open>\<open>etext\<close> and \<open>trampoline\<close> are the addresses the linker gives those symbols.\<close>

definition kvmmake :: "nat \<Rightarrow> u64 \<Rightarrow> u64 \<Rightarrow> machine \<Rightarrow> (u64 \<times> machine) res" where
  "kvmmake h etext trampoline m =
    kbind (kalloc h m) (\<lambda>(kpgtbl, m).
    if kpgtbl = 0 then Undef
    else
      kbind (kvmmap h kpgtbl UART0 UART0 PGSIZE (PTE_R OR PTE_W)
        (m\<lparr>pmem := memset (pmem m) kpgtbl 0 4096\<rparr>)) (\<lambda>m.
      kbind (kvmmap h kpgtbl VIRTIO0 VIRTIO0 PGSIZE (PTE_R OR PTE_W) m) (\<lambda>m.
      kbind (kvmmap h kpgtbl PLIC PLIC 0x400000 (PTE_R OR PTE_W) m) (\<lambda>m.
      kbind (kvmmap h kpgtbl KERNBASE KERNBASE (etext - KERNBASE) (PTE_R OR PTE_X) m) (\<lambda>m.
      kbind (kvmmap h kpgtbl etext etext (PHYSTOP - etext) (PTE_R OR PTE_W) m) (\<lambda>m.
      kbind (kvmmap h kpgtbl TRAMPOLINE trampoline PGSIZE (PTE_R OR PTE_X) m) (\<lambda>m.
      kbind (proc_mapstacks h kpgtbl m) (\<lambda>m. Ok (kpgtbl, m)))))))))"

end
