(* ===== verification/Pagetable.thy ===== *)
theory Pagetable
  imports Vm
begin

text \<open>
  What the page tables of vm.c mean.  \<open>tab\<close> follows a virtual address down the tables and \<open>pte\<close> is
  the entry it ends at; \<open>pt_ok\<close> says that the tables are pages of the allocator and form a tree.
  The lemmas show that the operations of vm.c act on the map \<open>pte\<close> alone: \<open>walk\<close> may add tables but
  keeps every entry, and storing an entry changes it for the addresses of its page only.
\<close>

unbundle bit_operations_syntax

declare mod_0_imp_dvd [rule del]

section \<open>Entries and the pages they are in\<close>

lemma within_entry:
  fixes t i x :: u64
  assumes "within x (t + 8 * i) 8" and "unat i < 512"
  shows "unat (x - t) div 8 = unat i" and "within x t 4096"
proof -
  have r: "unat (x - (t + 8 * i)) < 8" using assms(1) by (simp add: within_def)
  have "unat (y + 8 * i) = unat y + 8 * unat i" if "unat y < 8" for y :: u64
    using that assms(2) by (simp add: unat_word_ariths)
  from this [OF r] have u: "unat (x - t) = unat (x - (t + 8 * i)) + 8 * unat i" by simp
  show "unat (x - t) div 8 = unat i" using r unfolding u by simp
  show "within x t 4096" using r assms(2) unfolding within_def u by linarith
qed

lemma same_page:
  assumes "within x t 4096" and "within x p 4096" and "t mod PGSIZE = 0" and "p mod PGSIZE = 0"
  shows "t = p"
  using apart_within [OF pages_apart [OF assms(3,4)] assms(1)] assms(2) by blast

lemma ld64_cong_entry:
  assumes "unat i < 512" and "\<And>x. within x t 4096 \<Longrightarrow> unat (x - t) div 8 = unat i \<Longrightarrow> w' x = w x"
  shows "ld64 w' (t + 8 * i) = ld64 w (t + 8 * i)"
  using assms within_entry [of _ t i] by (intro ld_cong) auto

lemma ld64_st64_other_entry:
  assumes "unat i < 512" and "unat j < 512" and "t \<noteq> t' \<or> i \<noteq> j"
    and "t mod PGSIZE = 0" and "t' mod PGSIZE = 0"
  shows "ld64 (st64 w (t' + 8 * j) v) (t + 8 * i) = ld64 w (t + 8 * i)"
proof (rule ld64_cong_entry [OF assms(1)])
  fix x assume x: "within x t 4096" "unat (x - t) div 8 = unat i"
  have "\<not> within x (t' + 8 * j) 8"
  proof
    assume "within x (t' + 8 * j) 8"
    from within_entry [OF this assms(2)] have "unat (x - t') div 8 = unat j" "within x t' 4096" .
    with same_page [OF x(1) _ assms(4,5)] x(2) assms(3) show False
      using word_unat_eq_iff [of i j] by auto
  qed
  then show "st64 w (t' + 8 * j) v x = w x" by (simp add: st_outside)
qed

lemma ld64_memset_entry:
  assumes "unat i < 512" and "t mod PGSIZE = 0" and "p mod PGSIZE = 0" and "t \<noteq> p"
  shows "ld64 (memset w p c 4096) (t + 8 * i) = ld64 w (t + 8 * i)"
  using assms same_page [of _ t p] by (intro ld64_cong_entry) (auto simp: memset_eq)

lemma ld64_zeroed_entry: "unat i < 512 \<Longrightarrow> ld64 (memset w p 0 4096) (p + 8 * i) = 0"
  using within_entry(2) [of _ p i] by (intro ld64_zero) (auto simp: memset_eq)

lemma PX_less: "unat (PX l va) < 512"
proof -
  have "PX l va = take_bit 9 (drop_bit (12 + 9 * l) va)"
    by (simp add: PX_def take_bit_eq_mask mask_eq_exp_minus_1)
  then show ?thesis
    using take_bit_nat_less_exp [of 9] by (simp add: unsigned_take_bit_eq)
qed

lemma bit_below: "f < 0x400 \<Longrightarrow> bit f n \<Longrightarrow> n < 10" for f :: u64
proof -
  assume "f < 0x400" and b: "bit f n"
  then have "unat f < 2 ^ 10" by (simp add: word_less_nat_alt)
  then have "take_bit 10 f = f"
    by (simp add: word_unat_eq_iff unsigned_take_bit_eq take_bit_nat_eq_self)
  with b show ?thesis by (metis bit_take_bit_iff)
qed

lemma aligned_bits: "p mod PGSIZE = 0 \<Longrightarrow> bit p n \<Longrightarrow> 12 \<le> n" for p :: u64
proof (rule ccontr)
  assume "p mod PGSIZE = 0" "bit p n" "\<not> 12 \<le> n"
  moreover have "p mod PGSIZE = take_bit 12 p" by (simp add: take_bit_eq_mod)
  ultimately show False by (metis bit_0_eq bit_take_bit_iff bot_apply leI bot_bool_def)
qed

lemma PTE2PA_PA2PTE:
  assumes "p mod PGSIZE = 0" and "f < 0x400"
  shows "PTE2PA (PA2PTE p OR f) = p" and "PTE_FLAGS (PA2PTE p OR f) = f"
proof -
  show "PTE2PA (PA2PTE p OR f) = p"
    using aligned_bits [OF assms(1)] bit_below [OF assms(2)]
    by (intro bit_word_eqI) (auto simp: PTE2PA_def PA2PTE_def bit_simps)
  have "PTE_FLAGS e = take_bit 10 e" for e
    by (simp add: PTE_FLAGS_def take_bit_eq_mask mask_eq_exp_minus_1)
  then show "PTE_FLAGS (PA2PTE p OR f) = f"
    using bit_below [OF assms(2)]
    by (intro bit_word_eqI) (auto simp: PA2PTE_def bit_simps)
qed

lemma page_ok_upd [simp]:
  "page_ok (m\<lparr>pmem := w\<rparr>) p = page_ok m p" "page_ok (m\<lparr>freelist := r\<rparr>) p = page_ok m p"
  "page_ok (touch h m) p = page_ok m p"
  by (simp_all add: page_ok_def)

section \<open>The tables as a map\<close>

primrec tab :: "mem \<Rightarrow> u64 \<Rightarrow> u64 \<Rightarrow> nat \<Rightarrow> u64 option" where
  "tab w root va 0 = Some root"
| "tab w root va (Suc n) =
    (case tab w root va n of
       None \<Rightarrow> None
     | Some t \<Rightarrow> let e = ld64 w (t + 8 * PX (2 - n) va)
                in if e AND PTE_V \<noteq> 0 then Some (PTE2PA e) else None)"

definition pte :: "mem \<Rightarrow> u64 \<Rightarrow> u64 \<Rightarrow> u64" where
  "pte w root va = (case tab w root va 2 of None \<Rightarrow> 0 | Some t \<Rightarrow> ld64 w (t + 8 * PX 0 va))"

definition same_upto :: "nat \<Rightarrow> u64 \<Rightarrow> u64 \<Rightarrow> bool" where
  "same_upto n va va' = (\<forall>i < n. PX (2 - i) va = PX (2 - i) va')"

definition tables :: "mem \<Rightarrow> u64 \<Rightarrow> u64 set" where
  "tables w root = {t. \<exists>va n. n \<le> 2 \<and> tab w root va n = Some t}"

text \<open>A valid entry of a table above the last level points to a table: it has no other flag.\<close>

definition dirs_ok :: "mem \<Rightarrow> u64 \<Rightarrow> bool" where
  "dirs_ok w root =
    (\<forall>va n t. n < 2 \<longrightarrow> tab w root va n = Some t \<longrightarrow>
       ld64 w (t + 8 * PX (2 - n) va) AND PTE_V \<noteq> 0 \<longrightarrow>
       PTE_FLAGS (ld64 w (t + 8 * PX (2 - n) va)) = PTE_V)"

definition pt_ok :: "machine \<Rightarrow> u64 \<Rightarrow> bool" where
  "pt_ok m root =
    ((\<forall>t \<in> tables (pmem m) root. page_ok m t) \<and>
     (\<forall>va n va' n' t. n \<le> 2 \<longrightarrow> n' \<le> 2 \<longrightarrow> tab (pmem m) root va n = Some t \<longrightarrow>
        tab (pmem m) root va' n' = Some t \<longrightarrow> n' = n \<and> same_upto n va va') \<and>
     dirs_ok (pmem m) root)"

lemma tablesI: "tab w root va n = Some t \<Longrightarrow> n \<le> 2 \<Longrightarrow> t \<in> tables w root"
  unfolding tables_def by blast

lemma same_upto_sym: "same_upto n va va' = same_upto n va' va"
  by (auto simp: same_upto_def)

lemma same_upto_Suc: "same_upto (Suc n) va va' = (same_upto n va va' \<and> PX (2 - n) va = PX (2 - n) va')"
  by (auto simp: same_upto_def less_Suc_eq)

lemma same_upto_3: "same_upto 3 va va' = (same_upto 2 va va' \<and> PX 0 va = PX 0 va')"
  using same_upto_Suc [of 2 va va'] by (simp add: numeral_3_eq_3 numeral_2_eq_2)

lemma same_upto_refl [simp]: "same_upto n va va"
  by (simp add: same_upto_def)

lemma tab_same: "same_upto n va va' \<Longrightarrow> tab w root va n = tab w root va' n"
  by (induction n) (auto simp: same_upto_Suc split: option.split)

lemma tab_None_mono: "tab w root va n = None \<Longrightarrow> n \<le> k \<Longrightarrow> tab w root va k = None"
proof (induction k)
  case (Suc k)
  then show ?case by (cases "n = Suc k") auto
qed simp

lemma pt_okD:
  assumes "pt_ok m root" and "tab (pmem m) root va n = Some t" and "n \<le> 2"
  shows "page_ok m t" and "t mod PGSIZE = 0" and "t \<in> tables (pmem m) root"
    and "tab (pmem m) root va' n' = Some t \<Longrightarrow> n' \<le> 2 \<Longrightarrow> n' = n \<and> same_upto n va va'"
proof -
  show t: "t \<in> tables (pmem m) root" using assms(2,3) by (auto simp: tables_def)
  then show "page_ok m t" using assms(1) by (simp add: pt_ok_def)
  then show "t mod PGSIZE = 0" by (simp add: page_ok_def)
  show "tab (pmem m) root va' n' = Some t \<Longrightarrow> n' \<le> 2 \<Longrightarrow> n' = n \<and> same_upto n va va'"
    using assms unfolding pt_ok_def by blast
qed

text \<open>Linking a zeroed page \<open>p\<close> into an empty entry of the table \<open>t\<close>.\<close>

lemma tab_link:
  assumes ok: "pt_ok m root" and t: "tab (pmem m) root va n = Some t" and n: "n < 2"
    and e: "ld64 (pmem m) (t + 8 * PX (2 - n) va) AND PTE_V = 0"
    and p: "page_ok m p" "p \<notin> tables (pmem m) root"
    and v: "v AND PTE_V \<noteq> 0" "PTE2PA v = p"
  defines "w' \<equiv> st64 (memset (memset (pmem m) p 5 4096) p 0 4096) (t + 8 * PX (2 - n) va) v"
  shows "k \<le> 2 \<Longrightarrow> tab w' root va' k =
    (if n < k \<and> same_upto (Suc n) va va' then (if k = Suc n then Some p else None)
     else tab (pmem m) root va' k)"
proof (induction k)
  case (Suc k)
  have al: "t mod PGSIZE = 0" "p mod PGSIZE = 0" and tp: "t \<noteq> p"
    using pt_okD [OF ok t] n p by (auto simp: page_ok_def)
  note old = ld64_st64_other_entry [OF PX_less PX_less _ _ al(1)]
  have IH: "tab w' root va' k = (if n < k \<and> same_upto (Suc n) va va' then
      (if k = Suc n then Some p else None) else tab (pmem m) root va' k)"
    using Suc by simp
  show ?case
  proof (cases "n < k \<and> same_upto (Suc n) va va'")
    case True
    then have "ld64 w' (p + 8 * PX (2 - k) va') = 0"
      using old [of p "2 - k" va' "2 - n" va] tp al by (simp add: w'_def ld64_zeroed_entry PX_less)
    with True IH show ?thesis by (auto simp: less_Suc_eq)
  next
    case False
    note IH = IH [unfolded if_not_P [OF False]]
    show ?thesis
    proof (cases "tab (pmem m) root va' k")
      case None
      then have "\<not> (k = n \<and> same_upto (Suc n) va va')"
        using t tab_same [of n va va'] by (auto simp: same_upto_Suc)
      with None IH False show ?thesis by (auto simp: less_Suc_eq)
    next
      case (Some t')
      have k: "k \<le> 2" using Suc.prems by simp
      have al': "t' mod PGSIZE = 0" "t' \<noteq> p" using pt_okD [OF ok Some k] p by auto
      show ?thesis
      proof (cases "k = n \<and> same_upto (Suc n) va va'")
        case True
        then have "t' = t" "PX (2 - k) va' = PX (2 - n) va"
          using t Some tab_same [of n va va'] by (auto simp: same_upto_Suc)
        then show ?thesis using IH Some True v by (simp add: w'_def mem_simps)
      next
        case F: False
        have "t' \<noteq> t \<or> PX (2 - k) va' \<noteq> PX (2 - n) va"
          using F pt_okD(4) [OF ok t _ _ k, of va'] Some n by (auto simp: same_upto_Suc)
        then have "ld64 w' (t' + 8 * PX (2 - k) va') = ld64 (pmem m) (t' + 8 * PX (2 - k) va')"
          using old al al' by (simp add: w'_def ld64_memset_entry PX_less)
        with IH Some F False show ?thesis by (auto simp: less_Suc_eq)
      qed
    qed
  qed
qed simp

lemma tab_link_tables:
  assumes "pt_ok m root" and "tab (pmem m) root va n = Some t" and "n < 2"
    and "ld64 (pmem m) (t + 8 * PX (2 - n) va) AND PTE_V = 0"
    and "page_ok m p" "p \<notin> tables (pmem m) root"
    and "v AND PTE_V \<noteq> 0" "PTE2PA v = p" "PTE_FLAGS v = PTE_V"
  defines "w' \<equiv> st64 (memset (memset (pmem m) p 5 4096) p 0 4096) (t + 8 * PX (2 - n) va) v"
  shows "tables w' root = insert p (tables (pmem m) root)" and "pt_ok (m\<lparr>pmem := w'\<rparr>) root"
    and "pte w' root = pte (pmem m) root"
proof -
  note link = tab_link [OF assms(1-8), folded w'_def]
  have none: "tab (pmem m) root va' k = None" if "n < k" "same_upto (Suc n) va va'" for va' k
  proof -
    have "tab (pmem m) root va' (Suc n) = None"
      using that(2) assms(2,4) tab_same [of n va' va "pmem m" root]
      by (simp add: same_upto_Suc same_upto_sym)
    then show ?thesis by (rule tab_None_mono) (use that(1) in simp)
  qed
  have p: "tab w' root va (Suc n) = Some p" using link [of "Suc n" va] assms(3) by simp
  have old: "tab w' root va' k = Some t'" if "k \<le> 2" "tab (pmem m) root va' k = Some t'" for va' k t'
    using link [OF that(1), of va'] none [of k va'] that(2) by auto
  have new: "tab w' root va' k = Some t' \<Longrightarrow> k \<le> 2 \<Longrightarrow>
      tab (pmem m) root va' k = Some t' \<or> t' = p \<and> k = Suc n \<and> same_upto (Suc n) va va'" for va' k t'
    using link [of k va'] by (auto split: if_splits)
  have al: "t mod PGSIZE = 0" "p mod PGSIZE = 0" "t \<noteq> p"
    using pt_okD [OF assms(1,2)] assms(3,5,6) by (auto simp: page_ok_def)
  have dirs: "dirs_ok w' root"
    unfolding dirs_ok_def
  proof (intro allI impI)
    fix va' k t'
    assume k: "k < 2" "tab w' root va' k = Some t'" "ld64 w' (t' + 8 * PX (2 - k) va') AND PTE_V \<noteq> 0"
    have "ld64 w' (p + 8 * PX (2 - k) va') = 0"
      using al by (simp add: w'_def ld64_st64_other_entry ld64_zeroed_entry PX_less)
    then have t': "tab (pmem m) root va' k = Some t'" "t' \<noteq> p" "t' mod PGSIZE = 0"
      using new [OF k(2)] k pt_okD(2,3) [OF assms(1), of va' k t'] assms(6) by auto
    show "PTE_FLAGS (ld64 w' (t' + 8 * PX (2 - k) va')) = PTE_V"
    proof (cases "t' = t \<and> PX (2 - k) va' = PX (2 - n) va")
      case True
      then show ?thesis using assms(9) by (simp add: w'_def mem_simps)
    next
      case False
      then have "ld64 w' (t' + 8 * PX (2 - k) va') = ld64 (pmem m) (t' + 8 * PX (2 - k) va')"
        using al t' by (auto simp: w'_def ld64_st64_other_entry ld64_memset_entry PX_less)
      then show ?thesis using k t' assms(1) by (simp add: pt_ok_def dirs_ok_def)
    qed
  qed
  show tabs: "tables w' root = insert p (tables (pmem m) root)"
  proof (rule set_eqI)
    fix q
    have "Suc n \<le> 2" using assms(3) by simp
    then show "q \<in> tables w' root \<longleftrightarrow> q \<in> insert p (tables (pmem m) root)"
      unfolding tables_def mem_Collect_eq insert_iff using p old new by metis
  qed
  show "pt_ok (m\<lparr>pmem := w'\<rparr>) root"
    unfolding pt_ok_def
  proof (intro conjI ballI allI impI)
    fix q assume "q \<in> tables (pmem (m\<lparr>pmem := w'\<rparr>)) root"
    then show "page_ok (m\<lparr>pmem := w'\<rparr>) q"
      using tabs assms(1,5) by (auto simp: pt_ok_def)
  next
    fix va1 k1 va2 k2 q
    assume "k1 \<le> 2" "k2 \<le> 2" "tab (pmem (m\<lparr>pmem := w'\<rparr>)) root va1 k1 = Some q"
      "tab (pmem (m\<lparr>pmem := w'\<rparr>)) root va2 k2 = Some q"
    then show "k2 = k1" "same_upto k1 va1 va2"
      using new [of va1 k1 q] new [of va2 k2 q] pt_okD(3) [OF assms(1), of va1 k1 q]
        pt_okD(3,4) [OF assms(1), of va2 k2 q] assms(6)
      by (auto simp: same_upto_def)
  qed (use dirs in simp)
  show "pte w' root = pte (pmem m) root"
  proof
    fix va'
    show "pte w' root va' = pte (pmem m) root va'"
    proof (cases "tab (pmem m) root va' 2")
      case (Some t')
      have "t' \<noteq> t" "t' mod PGSIZE = 0" "t' \<noteq> p"
        using pt_okD(2,3) [OF assms(1) Some] pt_okD(4) [OF assms(1) Some order_refl, of va n] assms(2,3,6)
        by auto
      then show ?thesis using old [OF _ Some] Some al
        by (simp add: pte_def w'_def ld64_st64_other_entry ld64_memset_entry PX_less)
    next
      case None
      then have "tab w' root va' 2 = None \<or> tab w' root va' 2 = Some p"
        using link [of 2 va'] assms(3) by auto
      moreover have "ld64 w' (p + 8 * PX 0 va') = 0"
        using al by (simp add: w'_def ld64_st64_other_entry ld64_zeroed_entry PX_less)
      ultimately show ?thesis using None by (auto simp: pte_def)
    qed
  qed
qed

text \<open>Memory that agrees on the pages of the tables has the same tables and entries.\<close>

lemma tab_frame:
  assumes "\<And>t i. t \<in> tables w root \<Longrightarrow> unat i < 512 \<Longrightarrow> ld64 w' (t + 8 * i) = ld64 w (t + 8 * i)"
  shows "n \<le> 2 \<Longrightarrow> tab w' root va n = tab w root va n" and "tables w' root = tables w root"
    and "pte w' root = pte w root" and "dirs_ok w' root = dirs_ok w root"
proof -
  show *: "n \<le> 2 \<Longrightarrow> tab w' root va n = tab w root va n" for va n
  proof (induction n)
    case (Suc n)
    then have IH: "tab w' root va n = tab w root va n" by simp
    show ?case
    proof (cases "tab w root va n")
      case (Some t)
      then have "t \<in> tables w root" by (rule tablesI) (use Suc.prems in simp)
      then show ?thesis using Some IH assms [of t] by (simp add: PX_less)
    qed (simp add: IH)
  qed simp
  show "tables w' root = tables w root" using * by (simp add: tables_def cong: conj_cong)
  have "ld64 w' (t + 8 * PX l va) = ld64 w (t + 8 * PX l va)" if "n < 2" "tab w root va n = Some t" for va n t l
    using assms [OF tablesI [OF that(2)] PX_less] that(1) by simp
  then show "dirs_ok w' root = dirs_ok w root" using * by (simp add: dirs_ok_def cong: imp_cong)
  show "pte w' root = pte w root"
  proof
    fix va
    show "pte w' root va = pte w root va"
    proof (cases "tab w root va 2")
      case (Some t)
      then have "t \<in> tables w root" by (rule tablesI) simp
      then show ?thesis using Some * [of 2 va] assms [of t] by (simp add: pte_def PX_less)
    qed (simp add: pte_def *)
  qed
qed

lemma tab_frame_bytes:
  assumes "\<And>t x. t \<in> tables w root \<Longrightarrow> within x t 4096 \<Longrightarrow> w' x = w x"
  shows "n \<le> 2 \<Longrightarrow> tab w' root va n = tab w root va n" and "tables w' root = tables w root"
    and "pte w' root = pte w root" and "dirs_ok w' root = dirs_ok w root"
  using assms by (intro tab_frame ld64_cong_entry; simp)+

lemma pt_ok_frame:
  assumes "\<And>t x. t \<in> tables (pmem m) root \<Longrightarrow> within x t 4096 \<Longrightarrow> pmem m' x = pmem m x"
    and "kend m' = kend m"
  shows "pt_ok m root \<Longrightarrow> pt_ok m' root"
  using tab_frame_bytes [of "pmem m" root "pmem m'", OF assms(1)] assms(2)
  unfolding pt_ok_def page_ok_def by simp

text \<open>Storing the entry that \<open>va\<close> ends at.\<close>

lemma pte_store:
  fixes v :: u64
  assumes ok: "pt_ok m root" and t: "tab (pmem m) root va 2 = Some t"
  defines "w' \<equiv> st64 (pmem m) (t + 8 * PX 0 va) v"
  shows "n \<le> 2 \<Longrightarrow> tab w' root va' n = tab (pmem m) root va' n"
    and "tables w' root = tables (pmem m) root"
    and "pte w' root va' = (if same_upto 3 va va' then v else pte (pmem m) root va')"
    and "pt_ok (m\<lparr>pmem := w'\<rparr>) root"
proof -
  have al: "t mod PGSIZE = 0" using pt_okD [OF ok t] by simp
  show tab: "n \<le> 2 \<Longrightarrow> tab w' root va' n = tab (pmem m) root va' n" for n va'
  proof (induction n)
    case (Suc n)
    then have IH: "tab w' root va' n = tab (pmem m) root va' n" by simp
    show ?case
    proof (cases "tab (pmem m) root va' n")
      case (Some t')
      then have "t' \<noteq> t" "t' mod PGSIZE = 0"
        using pt_okD(2) [OF ok Some] pt_okD(4) [OF ok t order_refl, of va' n] Suc.prems by auto
      then show ?thesis using Some IH al by (simp add: w'_def ld64_st64_other_entry PX_less)
    qed (simp add: IH)
  qed simp
  then show tabs: "tables w' root = tables (pmem m) root" by (simp add: tables_def cong: conj_cong)
  have "ld64 w' (t' + 8 * PX l va') = ld64 (pmem m) (t' + 8 * PX l va')"
    if "n < 2" "tab (pmem m) root va' n = Some t'" for va' n t' l
    using pt_okD(2) [OF ok that(2)] pt_okD(4) [OF ok t order_refl, of va' n] al that
    unfolding w'_def by (intro ld64_st64_other_entry) (auto simp: PX_less)
  then have "dirs_ok w' root = dirs_ok (pmem m) root" using tab by (simp add: dirs_ok_def cong: imp_cong)
  then show "pt_ok (m\<lparr>pmem := w'\<rparr>) root" using ok tab tabs by (simp add: pt_ok_def)
  show "pte w' root va' = (if same_upto 3 va va' then v else pte (pmem m) root va')"
  proof (cases "tab (pmem m) root va' 2")
    case None
    then show ?thesis using t tab tab_same [of 2 va va' "pmem m" root] by (auto simp: pte_def same_upto_3)
  next
    case (Some t')
    show ?thesis
    proof (cases "same_upto 3 va va'")
      case True
      then show ?thesis using t tab Some tab_same [of 2 va va' "pmem m" root]
        by (auto simp: pte_def same_upto_3 w'_def mem_simps)
    next
      case False
      then have "t' \<noteq> t \<or> PX 0 va' \<noteq> PX 0 va"
        using pt_okD(4) [OF ok t order_refl, of va' 2] Some by (auto simp: same_upto_3)
      moreover have "t' mod PGSIZE = 0" using pt_okD [OF ok Some] by simp
      ultimately show ?thesis using Some False tab al
        by (simp add: pte_def w'_def ld64_st64_other_entry PX_less)
    qed
  qed
qed

section \<open>What the operations keep\<close>

text \<open>Only memory and the free list differ, and the interrupt flag a nested lock rewrites.\<close>

definition mem_only :: "nat \<Rightarrow> machine \<Rightarrow> machine \<Rightarrow> bool" where
  "mem_only h m m' = (touch h m' = (touch h m)\<lparr>pmem := pmem m', freelist := freelist m'\<rparr>)"

lemma touch_upd:
  "touch h (m\<lparr>pmem := w\<rparr>) = (touch h m)\<lparr>pmem := w\<rparr>"
  "touch h (m\<lparr>freelist := f\<rparr>) = (touch h m)\<lparr>freelist := f\<rparr>"
  by (simp_all add: touch_def upd_cpu_def)

lemma mem_only_intros [simp]:
  "mem_only h m m" "mem_only h m (m\<lparr>pmem := w\<rparr>)" "mem_only h m (m\<lparr>freelist := f\<rparr>)"
  "mem_only h m (touch h m)"
  by (simp_all add: mem_only_def touch_upd lock_simps)

lemma mem_only_trans: "mem_only h m m' \<Longrightarrow> mem_only h m' m'' \<Longrightarrow> mem_only h m m''"
  by (simp add: mem_only_def)

lemma mem_onlyD:
  assumes "mem_only h m m'"
  shows "locks m' = locks m" "kend m' = kend m" "cpu_ok h m' = cpu_ok h m"
    "lock_free lk m' = lock_free lk m" "page_ok m' p = page_ok m p"
proof -
  have *: "touch h m' = (touch h m)\<lparr>pmem := pmem m', freelist := freelist m'\<rparr>"
    using assms by (simp add: mem_only_def)
  show "locks m' = locks m" "kend m' = kend m"
    using arg_cong [OF *, of locks] arg_cong [OF *, of kend] by simp_all
  then show "lock_free lk m' = lock_free lk m" "page_ok m' p = page_ok m p"
    by (simp_all add: lock_free_def page_ok_def)
  have "cpu_noff (cpus (touch h m') h) = cpu_noff (cpus (touch h m) h)"
    "cpu_sie (cpus (touch h m') h) = cpu_sie (cpus (touch h m) h)"
    unfolding * by simp_all
  then show "cpu_ok h m' = cpu_ok h m" by (simp add: cpu_ok_def)
qed

definition vm_inv :: "nat \<Rightarrow> u64 \<Rightarrow> machine \<Rightarrow> u64 list \<Rightarrow> bool" where
  "vm_inv h root m ps =
    (kalloc_inv h m ps \<and> pt_ok m root \<and> set ps \<inter> tables (pmem m) root = {})"

text \<open>
  From \<open>m\<close> with free pages \<open>ps\<close> to \<open>m'\<close> with free pages \<open>ps'\<close>: pages were only taken, from the front
  of the list, the tables grew only by pages taken, and no byte outside of the tables and the
  pages taken changed.
\<close>

definition vm_step :: "nat \<Rightarrow> u64 \<Rightarrow> machine \<Rightarrow> u64 list \<Rightarrow> machine \<Rightarrow> u64 list \<Rightarrow> bool" where
  "vm_step h root m ps m' ps' =
    (vm_inv h root m' ps' \<and> mem_only h m m' \<and>
     (\<exists>new. ps = new @ ps' \<and> tables (pmem m) root \<subseteq> tables (pmem m') root \<and>
        tables (pmem m') root \<subseteq> tables (pmem m) root \<union> set new \<and>
        (\<forall>x. (\<forall>t \<in> tables (pmem m) root \<union> set new. \<not> within x t 4096) \<longrightarrow> pmem m' x = pmem m x)))"

lemma vm_step_refl: "vm_inv h root m ps \<Longrightarrow> vm_step h root m ps m ps"
  by (auto simp: vm_step_def)

lemma vm_step_trans:
  assumes "vm_step h root m ps m' ps'" and "vm_step h root m' ps' m'' ps''"
  shows "vm_step h root m ps m'' ps''"
proof -
  obtain new where 1: "ps = new @ ps'" "tables (pmem m) root \<subseteq> tables (pmem m') root"
      "tables (pmem m') root \<subseteq> tables (pmem m) root \<union> set new"
      "\<And>x. (\<forall>t \<in> tables (pmem m) root \<union> set new. \<not> within x t 4096) \<Longrightarrow> pmem m' x = pmem m x"
    using assms(1) unfolding vm_step_def by blast
  obtain new' where 2: "ps' = new' @ ps''" "tables (pmem m') root \<subseteq> tables (pmem m'') root"
      "tables (pmem m'') root \<subseteq> tables (pmem m') root \<union> set new'"
      "\<And>x. (\<forall>t \<in> tables (pmem m') root \<union> set new'. \<not> within x t 4096) \<Longrightarrow> pmem m'' x = pmem m' x"
    using assms(2) unfolding vm_step_def by blast
  show ?thesis
    unfolding vm_step_def
  proof (intro conjI exI [of _ "new @ new'"] allI impI)
    show "vm_inv h root m'' ps''" using assms(2) by (simp add: vm_step_def)
    show "mem_only h m m''" using assms mem_only_trans unfolding vm_step_def by blast
    fix x assume x: "\<forall>t \<in> tables (pmem m) root \<union> set (new @ new'). \<not> within x t 4096"
    then have "pmem m' x = pmem m x" by (intro 1(4)) auto
    moreover have "pmem m'' x = pmem m' x" using x 1(3) by (intro 2(4)) auto
    ultimately show "pmem m'' x = pmem m x" by simp
  qed (use 1 2 in auto)
qed

lemma kalloc_inv_frame:
  assumes "kalloc_inv h m ps" and "mem_only h m m'" and "freelist m' = freelist m"
    and "\<And>p x. p \<in> set ps \<Longrightarrow> within x p 4096 \<Longrightarrow> pmem m' x = pmem m x"
  shows "kalloc_inv h m' ps"
proof -
  have "ld64 (pmem m) p = ld64 (pmem m') p" if "p \<in> set ps" for p
    using assms(4) [OF that] ld64_cong_entry [of 0 p "pmem m" "pmem m'"] by simp
  then have "flist (pmem m) r ps = flist (pmem m') r ps" for r by (rule flist_cong)
  then show ?thesis
    using assms(1,3) mem_onlyD [OF assms(2)] by (simp add: kalloc_inv_def kmem_inv_def)
qed

lemma within_st64_entry:
  assumes "t mod PGSIZE = 0" and "q mod PGSIZE = 0" and "q \<noteq> t" and "unat i < 512" and "within x q 4096"
  shows "st64 w (t + 8 * i) v x = w x"
  using within_entry(2) [of x t i] same_page [of x t q] assms by (intro st_outside) auto

lemma kalloc_takes:
  assumes inv: "kalloc_inv h m (p # ps)"
  obtains m1 where "kalloc h m = Ok (p, m1)" "kalloc_inv h m1 ps" "mem_only h m m1"
    "pmem m1 = memset (pmem m) p 5 4096" "page_ok m p" "p \<notin> set ps"
proof -
  let ?m = "(touch h (m\<lparr>freelist := ld64 (pmem m) p\<rparr>))\<lparr>pmem := memset (pmem m) p 5 4096\<rparr>"
  have "mem_only h m ?m"
    by (simp add: mem_only_def touch_upd lock_simps)
  moreover have "kalloc h m = Ok (p, ?m)" "kmem_inv ?m ps"
    using inv kalloc_page [of m p ps h] by (simp_all add: kalloc_inv_def)
  moreover have "kalloc_inv h ?m ps"
    using inv \<open>kmem_inv ?m ps\<close> by (simp add: kalloc_inv_def lock_simps)
  moreover have "page_ok m p" "p \<notin> set ps" using inv by (auto simp: kalloc_inv_def kmem_inv_def)
  ultimately show ?thesis using that by simp
qed

lemma walk_link:
  assumes inv: "vm_inv h root m (p # ps)" and t: "tab (pmem m) root va n = Some t" and n: "n < 2"
    and e: "ld64 (pmem m) (t + 8 * PX (2 - n) va) AND PTE_V = 0"
  obtains m1 m2 where "kalloc h m = Ok (p, m1)"
    "m2 = m1\<lparr>pmem := st64 (memset (pmem m1) p 0 4096) (t + 8 * PX (2 - n) va) (PA2PTE p OR PTE_V)\<rparr>"
    "vm_step h root m (p # ps) m2 ps" "pte (pmem m2) root = pte (pmem m) root"
    "tab (pmem m2) root va (Suc n) = Some p"
proof -
  have k: "kalloc_inv h m (p # ps)" and ok: "pt_ok m root" and p: "p \<notin> tables (pmem m) root"
    and disj: "set ps \<inter> tables (pmem m) root = {}" using inv by (auto simp: vm_inv_def)
  from kalloc_takes [OF k] obtain m1 where m1: "kalloc h m = Ok (p, m1)" "kalloc_inv h m1 ps"
      "mem_only h m m1" "pmem m1 = memset (pmem m) p 5 4096" "page_ok m p" "p \<notin> set ps" by blast
  let ?w = "st64 (memset (memset (pmem m) p 5 4096) p 0 4096) (t + 8 * PX (2 - n) va) (PA2PTE p OR PTE_V)"
  define m2 where "m2 = m1\<lparr>pmem := st64 (memset (pmem m1) p 0 4096) (t + 8 * PX (2 - n) va)
    (PA2PTE p OR PTE_V)\<rparr>"
  have w: "pmem m2 = ?w" by (simp add: m2_def m1(4))
  have al: "p mod PGSIZE = 0" "t mod PGSIZE = 0" and tt: "t \<in> tables (pmem m) root"
    using m1(5) pt_okD [OF ok t] n by (auto simp: page_ok_def)
  have v: "(PA2PTE p OR PTE_V) AND PTE_V \<noteq> 0" "PTE2PA (PA2PTE p OR PTE_V) = p"
    "PTE_FLAGS (PA2PTE p OR PTE_V) = PTE_V"
    using PTE2PA_PA2PTE [OF al(1), of 1] by (auto simp: word_ao_dist2 and.commute)
  note link = tab_link [OF ok t n e m1(5) p v(1,2)] tab_link_tables [OF ok t n e m1(5) p v]
  have only: "mem_only h m m2" using m1(3) mem_only_intros(2) mem_only_trans unfolding m2_def by blast
  have "kalloc_inv h m2 ps"
  proof (rule kalloc_inv_frame [OF m1(2)])
    fix q x assume q: "q \<in> set ps" "within x q 4096"
    then have "q mod PGSIZE = 0" "q \<noteq> t" "q \<noteq> p"
      using k disj tt m1(6) by (auto simp: kalloc_inv_def kmem_inv_def page_ok_def)
    then show "pmem m2 x = pmem m1 x"
      using within_st64_entry [OF al(2) _ _ PX_less q(2)] same_page [OF q(2) _ _ al(1)]
      by (auto simp: m2_def memset_eq)
  qed (simp_all add: m2_def)
  moreover have "pt_ok m2 root"
    using link(3) mem_onlyD(2) [OF only] by (simp add: pt_ok_def page_ok_def w)
  ultimately have "vm_step h root m (p # ps) m2 ps"
    unfolding vm_step_def vm_inv_def
  proof (intro conjI exI [of _ "[p]"] allI impI)
    fix x assume x: "\<forall>q \<in> tables (pmem m) root \<union> set [p]. \<not> within x q 4096"
    then have "\<not> within x (t + 8 * PX (2 - n) va) 8" "\<not> within x p 4096"
      using within_entry(2) [OF _ PX_less, of x t] tt by auto
    then show "pmem m2 x = pmem m x" by (simp add: w st_outside memset_eq)
  qed (use only link(2) disj m1(6) in \<open>auto simp: w\<close>)
  moreover have "tab (pmem m2) root va (Suc n) = Some p"
    using link(1) [of "Suc n" va] n by (simp add: w)
  ultimately show ?thesis using that [OF m1(1) m2_def] link(4) by (simp add: w)
qed

section \<open>walk\<close>

definition pte_addr :: "mem \<Rightarrow> u64 \<Rightarrow> u64 \<Rightarrow> u64" where
  "pte_addr w root va = (case tab w root va 2 of None \<Rightarrow> 0 | Some t \<Rightarrow> t + 8 * PX 0 va)"

lemma walk_loop_lookup:
  "tab (pmem m) root va n = Some t \<Longrightarrow> n + l = 2 \<Longrightarrow>
   walk_loop l h t va False m = Ok (pte_addr (pmem m) root va, m)"
proof (induction l arbitrary: n t)
  case 0
  then show ?case by (simp add: pte_addr_def)
next
  case (Suc l)
  let ?e = "ld64 (pmem m) (t + 8 * PX (Suc l) va)"
  have n: "2 - n = Suc l" "Suc n \<le> 2" "Suc n + l = 2" using Suc.prems(2) by simp_all
  show ?case
  proof (cases "?e AND PTE_V = 0")
    case True
    then have "tab (pmem m) root va (Suc n) = None" using Suc.prems n by simp
    then have "tab (pmem m) root va 2 = None" using tab_None_mono n(2) by blast
    then show ?thesis using True by (simp add: pte_addr_def)
  next
    case False
    then have "tab (pmem m) root va (Suc n) = Some (PTE2PA ?e)" using Suc.prems n by simp
    from Suc.IH [OF this n(3)] False show ?thesis by simp
  qed
qed

lemma walk_lookup: "va < MAXVA \<Longrightarrow> walk h root va False m = Ok (pte_addr (pmem m) root va, m)"
  using walk_loop_lookup [of m root va 0 root 2 h] by (simp add: walk_def)

lemma entry_nonzero: "page_ok m t \<Longrightarrow> unat i < 512 \<Longrightarrow> t + 8 * i \<noteq> 0"
proof -
  assume t: "page_ok m t" and i: "unat i < 512"
  then have "unat t < 0x88000000" "0 < unat t" by (auto simp: page_ok_def word_less_nat_alt unat_gt_0)
  then have "unat (t + 8 * i) = unat t + 8 * unat i" using i by (simp add: unat_word_ariths)
  with \<open>0 < unat t\<close> show ?thesis by (metis add_is_0 unat_0 less_irrefl)
qed

lemma pte_addr_0:
  assumes "pt_ok m root"
  shows "pte_addr (pmem m) root va = 0 \<longleftrightarrow> tab (pmem m) root va 2 = None"
  using entry_nonzero [OF pt_okD(1) [OF assms _ order_refl] PX_less]
  by (auto simp: pte_addr_def split: option.split)

lemma pte_addr_ld:
  "pte_addr w root va \<noteq> 0 \<Longrightarrow> ld64 w (pte_addr w root va) = pte w root va"
  by (auto simp: pte_addr_def pte_def split: option.splits)

lemma walk_loop_alloc:
  "vm_inv h root m ps \<Longrightarrow> tab (pmem m) root va n = Some t \<Longrightarrow> n + l = 2 \<Longrightarrow>
   \<exists>m' ps'. walk_loop l h t va True m = Ok (pte_addr (pmem m') root va, m') \<and>
     vm_step h root m ps m' ps' \<and> pte (pmem m') root = pte (pmem m) root \<and>
     (pte_addr (pmem m') root va = 0 \<longrightarrow> ps' = [])"
proof (induction l arbitrary: n t m ps)
  case 0
  have "pt_ok m root" using 0 by (simp add: vm_inv_def)
  then have "pte_addr (pmem m) root va \<noteq> 0" using 0 pte_addr_0 [of m root va] by simp
  then show ?case using 0 vm_step_refl [OF 0(1)] by (auto simp: pte_addr_def)
next
  case (Suc l)
  let ?e = "ld64 (pmem m) (t + 8 * PX (Suc l) va)"
  have n: "2 - n = Suc l" "Suc n + l = 2" "n < 2" using Suc.prems(3) by simp_all
  show ?case
  proof (cases "?e AND PTE_V = 0")
    case False
    then have "tab (pmem m) root va (Suc n) = Some (PTE2PA ?e)" using Suc.prems n by simp
    from Suc.IH [OF Suc.prems(1) this n(2)] False show ?thesis by simp
  next
    case True
    show ?thesis
    proof (cases ps)
      case Nil
      have "tab (pmem m) root va (Suc n) = None" using True Suc.prems n by simp
      then have none: "tab (pmem m) root va 2 = None" using tab_None_mono n(3) by (metis Suc_leI)
      have k: "kalloc_inv h m []" using Suc.prems(1) Nil by (simp add: vm_inv_def)
      then have "kalloc h m = Ok (0, touch h m)" by (simp add: kalloc_inv_def kalloc_empty)
      moreover have "vm_step h root m ps (touch h m) ps"
        using Suc.prems(1) k Nil
        by (auto simp: vm_step_def vm_inv_def kalloc_inv_def kmem_inv_touch lock_simps pt_ok_def)
      ultimately show ?thesis using True none Nil by (simp add: pte_addr_def)
    next
      case (Cons p qs)
      from walk_link [OF Suc.prems(1) [unfolded Cons] Suc.prems(2) n(3)] True n(1)
      obtain m1 m2 where k: "kalloc h m = Ok (p, m1)"
        "m2 = m1\<lparr>pmem := st64 (memset (pmem m1) p 0 4096) (t + 8 * PX (Suc l) va) (PA2PTE p OR PTE_V)\<rparr>"
        and s: "vm_step h root m ps m2 qs" "pte (pmem m2) root = pte (pmem m) root"
        and p: "tab (pmem m2) root va (Suc n) = Some p" unfolding Cons by metis
      have "p \<noteq> 0" using Suc.prems(1) by (auto simp: Cons vm_inv_def kalloc_inv_def kmem_inv_def)
      from s have i: "vm_inv h root m2 qs" by (simp add: vm_step_def)
      from Suc.IH [OF i p n(2)] s \<open>p \<noteq> 0\<close> True k show ?thesis by (auto intro: vm_step_trans)
    qed
  qed
qed

lemma walk_alloc:
  assumes "vm_inv h root m ps" and "va < MAXVA"
  obtains m' ps' where "walk h root va True m = Ok (pte_addr (pmem m') root va, m')"
    "vm_step h root m ps m' ps'" "pte (pmem m') root = pte (pmem m) root"
    "pte_addr (pmem m') root va = 0 \<longrightarrow> ps' = []"
proof -
  have "walk h root va True m = walk_loop 2 h root va True m" using assms(2) by (auto simp: walk_def)
  moreover obtain m' ps' where "walk_loop 2 h root va True m = Ok (pte_addr (pmem m') root va, m')"
    "vm_step h root m ps m' ps'" "pte (pmem m') root = pte (pmem m) root"
    "pte_addr (pmem m') root va = 0 \<longrightarrow> ps' = []"
    using walk_loop_alloc [OF assms(1), of va 0 root 2] by auto
  ultimately show ?thesis by (intro that) simp_all
qed

section \<open>mappages\<close>

lemma bit_PX: "bit (PX l va) i \<longleftrightarrow> i < 9 \<and> bit va (12 + 9 * l + i)"
proof -
  have "PX l va = take_bit 9 (drop_bit (12 + 9 * l) va)"
    by (simp add: PX_def take_bit_eq_mask mask_eq_exp_minus_1)
  then show ?thesis by (simp add: bit_simps)
qed

lemma bit_PGROUNDDOWN: "bit (PGROUNDDOWN va) n \<longleftrightarrow> 12 \<le> n \<and> bit va n"
  using bit_imp_le_length [of va n] by (auto simp: PGROUNDDOWN_bits bit_simps)

text \<open>The 27 bits of a virtual address that number its page.\<close>

definition vpn :: "u64 \<Rightarrow> nat" where
  "vpn va = unat va div 4096 mod 2 ^ 27"

lemma vpn_eq_iff: "vpn va = vpn va' \<longleftrightarrow> (\<forall>n. 12 \<le> n \<longrightarrow> n < 39 \<longrightarrow> bit va n = bit va' n)"
proof -
  have v: "vpn x = unat (take_bit 27 (drop_bit 12 x))" for x
    by (simp add: vpn_def take_bit_eq_mod drop_bit_eq_div unat_mod_distrib unat_div_distrib)
  have b: "bit (take_bit 27 (drop_bit 12 x)) n \<longleftrightarrow> n < 27 \<and> bit x (12 + n)" for x :: u64 and n
    by (simp add: bit_simps)
  show ?thesis
  proof
    assume "vpn va = vpn va'"
    then have "take_bit 27 (drop_bit 12 va) = take_bit 27 (drop_bit 12 va')"
      unfolding v by (simp add: word_unat_eq_iff)
    then have *: "bit va (12 + n) = bit va' (12 + n)" if "n < 27" for n
      using b [of va n] b [of va' n] that by simp
    show "\<forall>n. 12 \<le> n \<longrightarrow> n < 39 \<longrightarrow> bit va n = bit va' n"
    proof (intro allI impI)
      fix n :: nat assume "12 \<le> n" "n < 39"
      then show "bit va n = bit va' n" using * [of "n - 12"] by simp
    qed
  next
    assume "\<forall>n. 12 \<le> n \<longrightarrow> n < 39 \<longrightarrow> bit va n = bit va' n"
    then have "take_bit 27 (drop_bit 12 va) = take_bit 27 (drop_bit 12 va')"
      by (intro bit_word_eqI) (auto simp: b)
    then show "vpn va = vpn va'" by (simp add: v)
  qed
qed

lemma same_upto_vpn: "same_upto 3 va va' \<longleftrightarrow> vpn va = vpn va'"
proof
  assume *: "same_upto 3 va va'"
  have "bit va n = bit va' n" if "12 \<le> n" "n < 39" for n
  proof -
    let ?l = "(n - 12) div 9" and ?i = "(n - 12) mod 9"
    have "?l \<le> 2" using that by linarith
    then have "2 - ?l < 3" "2 - (2 - ?l) = ?l" by simp_all
    then have "PX ?l va = PX ?l va'" using * unfolding same_upto_def by metis
    moreover have "12 + 9 * ?l + ?i = n" using that by simp
    ultimately show ?thesis using bit_PX [of ?l va ?i] bit_PX [of ?l va' ?i] by simp
  qed
  then show "vpn va = vpn va'" by (simp add: vpn_eq_iff)
next
  assume *: "vpn va = vpn va'"
  show "same_upto 3 va va'"
    unfolding same_upto_def
  proof (intro allI impI bit_word_eqI)
    fix i n assume "i < (3::nat)"
    then have "12 \<le> 12 + 9 * (2 - i) + n" "n < 9 \<Longrightarrow> 12 + 9 * (2 - i) + n < 39" by auto
    then show "bit (PX (2 - i) va) n = bit (PX (2 - i) va') n"
      using * unfolding vpn_eq_iff bit_PX by blast
  qed
qed

lemma vpn_below: "va < MAXVA \<Longrightarrow> vpn va = unat va div 4096"
  by (simp add: vpn_def word_less_nat_alt)

text \<open>The address of page \<open>n\<close>; user space has the pages below \<open>NPAGES\<close>.\<close>

abbreviation pg :: "nat \<Rightarrow> u64" where "pg n \<equiv> of_nat n * PGSIZE"
abbreviation NPAGES :: nat where "NPAGES \<equiv> 67108864"

lemma unat_pg: "n \<le> NPAGES \<Longrightarrow> unat (pg n) = n * 4096"
proof -
  assume "n \<le> NPAGES"
  then have "unat (of_nat n :: u64) = n" by (intro unat_of_nat_small) simp
  then show ?thesis using \<open>n \<le> NPAGES\<close> by (simp add: unat_word_ariths)
qed

lemma pg_MAXVA: "n < NPAGES \<Longrightarrow> pg n < MAXVA"
  using unat_pg [of n] by (simp add: word_less_nat_alt)

lemma pg_Suc: "pg n + PGSIZE = pg (Suc n)"
  by (simp add: distrib_right)

lemma vpn_pg: "n < NPAGES \<Longrightarrow> vpn (pg n) = n"
  using unat_pg [of n] by (simp add: vpn_def)

lemma pg_aligned: "n \<le> NPAGES \<Longrightarrow> pg n mod PGSIZE = 0"
  unfolding mod_PGSIZE_iff by (simp add: unat_pg)

lemma pg_eq_iff: "k \<le> NPAGES \<Longrightarrow> n \<le> NPAGES \<Longrightarrow> pg k = pg n \<longleftrightarrow> k = n"
  unfolding word_unat_eq_iff by (simp add: unat_pg)

lemma pg_less_iff: "k \<le> NPAGES \<Longrightarrow> n \<le> NPAGES \<Longrightarrow> pg k < pg n \<longleftrightarrow> k < n"
  unfolding word_less_nat_alt by (simp add: unat_pg)

lemma vpn_less: "va < MAXVA \<Longrightarrow> vpn va < NPAGES"
  by (simp add: vpn_below word_less_nat_alt)

lemma pte_vpn: "vpn va = vpn va' \<Longrightarrow> pte w root va = pte w root va'"
  using tab_same [of 2 va va' w root]
  by (auto simp: pte_def same_upto_vpn [symmetric] same_upto_3 split: option.split)

text \<open>An entry stored where \<open>walk\<close> points.\<close>

lemma vm_store:
  fixes v :: u64
  assumes inv: "vm_inv h root m ps" and a: "pte_addr (pmem m) root va \<noteq> 0"
  defines "m' \<equiv> m\<lparr>pmem := st64 (pmem m) (pte_addr (pmem m) root va) v\<rparr>"
  shows "vm_step h root m ps m' ps" and "tables (pmem m') root = tables (pmem m) root"
    and "pte (pmem m') root va' = (if vpn va' = vpn va then v else pte (pmem m) root va')"
proof -
  obtain t where t: "tab (pmem m) root va 2 = Some t" and e: "pte_addr (pmem m) root va = t + 8 * PX 0 va"
    using a by (auto simp: pte_addr_def split: option.splits)
  have ok: "pt_ok m root" and k: "kalloc_inv h m ps" and d: "set ps \<inter> tables (pmem m) root = {}"
    using inv by (auto simp: vm_inv_def)
  note st = pte_store [OF ok t, where v = v]
  have tt: "t \<in> tables (pmem m) root" "t mod PGSIZE = 0" using pt_okD [OF ok t] by simp_all
  have "kalloc_inv h m' ps"
  proof (rule kalloc_inv_frame [OF k])
    fix p x assume p: "p \<in> set ps" "within x p 4096"
    then have "p mod PGSIZE = 0" "p \<noteq> t"
      using k d tt by (auto simp: kalloc_inv_def kmem_inv_def page_ok_def)
    then show "pmem m' x = pmem m x"
      using within_st64_entry [OF tt(2) _ _ PX_less p(2)] by (simp add: m'_def e)
  qed (simp_all add: m'_def)
  moreover have out: "pmem m' x = pmem m x" if "\<forall>q \<in> tables (pmem m) root. \<not> within x q 4096" for x
  proof -
    have "\<not> within x (t + 8 * PX 0 va) 8"
      using that tt(1) within_entry(2) [OF _ PX_less, of x t] by auto
    then show ?thesis by (simp add: m'_def e st_outside)
  qed
  ultimately show "vm_step h root m ps m' ps"
    using d st(2,4) by (auto simp: vm_step_def vm_inv_def m'_def e)
  show "tables (pmem m') root = tables (pmem m) root" using st(2) by (simp add: m'_def e)
  show "pte (pmem m') root va' = (if vpn va' = vpn va then v else pte (pmem m) root va')"
    using st(3) [of va'] same_upto_vpn [of va va'] by (auto simp: m'_def e)
qed

text \<open>The entries of the pages from \<open>k\<close> up to \<open>n\<close> map consecutive pages from \<open>pa\<close>; the others stay.\<close>

definition maps :: "mem \<Rightarrow> mem \<Rightarrow> u64 \<Rightarrow> nat \<Rightarrow> nat \<Rightarrow> u64 \<Rightarrow> i32 \<Rightarrow> bool" where
  "maps w w' root k n pa perm =
    (\<forall>va. pte w' root va =
       (if k \<le> vpn va \<and> vpn va < n then PA2PTE (pa + pg (vpn va - k)) OR scast perm OR PTE_V
        else pte w root va))"

lemma maps_Cons:
  assumes "maps w1 w2 root (Suc k) n (pa + PGSIZE) perm" and "k < n"
    and "\<And>va. pte w1 root va =
      (if vpn va = k then PA2PTE pa OR scast perm OR PTE_V else pte w root va)"
  shows "maps w w2 root k n pa perm"
  unfolding maps_def
proof
  fix va
  consider "vpn va = k" | "k < vpn va" | "vpn va < k" by linarith
  then show "pte w2 root va = (if k \<le> vpn va \<and> vpn va < n
      then PA2PTE (pa + pg (vpn va - k)) OR scast perm OR PTE_V else pte w root va)"
  proof cases
    case 2
    then have "pa + pg (vpn va - k) = pa + PGSIZE + pg (vpn va - Suc k)"
      using pg_Suc [of "vpn va - Suc k"] by (simp add: Suc_diff_Suc algebra_simps)
    then show ?thesis using assms 2 by (auto simp: maps_def Suc_le_eq)
  qed (use assms in \<open>auto simp: maps_def\<close>)
qed

lemma mappages_step:
  assumes inv: "vm_inv h root m ps" and k: "k < NPAGES" and e: "pte (pmem m) root (pg k) AND PTE_V = 0"
  obtains (fails) m1 where "mappages_loop h root (pg k) b pa perm m = Ok (- 1, m1)"
      "vm_step h root m ps m1 []" "pte (pmem m1) root = pte (pmem m) root"
  | (stores) m2 ps2 where "mappages_loop h root (pg k) b pa perm m =
        (if pg k = b then Ok (0, m2) else mappages_loop h root (pg (Suc k)) b (pa + PGSIZE) perm m2)"
      "vm_step h root m ps m2 ps2" "\<And>va. pte (pmem m2) root va =
        (if vpn va = k then PA2PTE pa OR scast perm OR PTE_V else pte (pmem m) root va)"
proof -
  obtain m1 ps1 where w: "walk h root (pg k) True m = Ok (pte_addr (pmem m1) root (pg k), m1)"
    "vm_step h root m ps m1 ps1" "pte (pmem m1) root = pte (pmem m) root"
    "pte_addr (pmem m1) root (pg k) = 0 \<longrightarrow> ps1 = []" using walk_alloc [OF inv pg_MAXVA [OF k]] by blast
  let ?p = "pte_addr (pmem m1) root (pg k)" and ?v = "PA2PTE pa OR scast perm OR PTE_V"
  define m2 where "m2 = m1\<lparr>pmem := st64 (pmem m1) ?p ?v\<rparr>"
  show ?thesis
  proof (cases "?p = 0")
    case True
    then have "mappages_loop h root (pg k) b pa perm m = Ok (- 1, m1)"
      using w(1) by (subst mappages_loop.simps) simp
    then show ?thesis using w(2-4) True by (intro fails [of m1]) simp_all
  next
    case False
    have i1: "vm_inv h root m1 ps1" using w(2) by (simp add: vm_step_def)
    note st = vm_store [OF i1 False, where v = ?v, folded m2_def]
    have "ld64 (pmem m1) ?p AND PTE_V = 0" using pte_addr_ld [OF False] w(3) e by simp
    then have "mappages_loop h root (pg k) b pa perm m =
        (if pg k = b then Ok (0, m2) else mappages_loop h root (pg (Suc k)) b (pa + PGSIZE) perm m2)"
      using w(1) False unfolding pg_Suc [symmetric] by (subst mappages_loop.simps) (simp add: m2_def Let_def)
    then show ?thesis
      by (rule stores [OF _ vm_step_trans [OF w(2) st(1)]]) (simp add: st(3) w(3) vpn_pg [OF k])
  qed
qed

lemma mappages_loop_spec:
  "vm_inv h root m ps \<Longrightarrow> n < NPAGES \<Longrightarrow> k + d = n \<Longrightarrow>
   (\<And>va. k \<le> vpn va \<Longrightarrow> vpn va \<le> n \<Longrightarrow> pte (pmem m) root va AND PTE_V = 0) \<Longrightarrow>
   \<exists>r m' ps' c. mappages_loop h root (pg k) (pg n) pa perm m = Ok (r, m') \<and>
     vm_step h root m ps m' ps' \<and> maps (pmem m) (pmem m') root k c pa perm \<and> k \<le> c \<and>
     (r = 0 \<and> c = Suc n \<or> r = - 1 \<and> c \<le> n \<and> ps' = [])"
proof (induction d arbitrary: m ps k pa)
  case 0
  have k: "k < NPAGES" and n: "n = k" using 0 by simp_all
  have e: "pte (pmem m) root (pg k) AND PTE_V = 0" using 0(4) [of "pg k"] k n by (simp add: vpn_pg)
  from 0(1) k e show ?case
  proof (cases rule: mappages_step [where b = "pg n" and pa = pa and perm = perm])
    case (fails m1)
    then show ?thesis using n by (intro exI [of _ "- 1"] exI [of _ m1] exI [of _ "[]"] exI [of _ k])
      (auto simp: maps_def)
  next
    case (stores m2 ps2)
    then show ?thesis using n
      by (intro exI [of _ 0] exI [of _ m2] exI [of _ ps2] exI [of _ "Suc k"]) (auto simp: maps_def)
  qed
next
  case (Suc d)
  have k: "k < NPAGES" "k \<noteq> n" "k \<le> n" "pg k \<noteq> pg n" using Suc.prems(2,3) by (auto simp: pg_eq_iff)
  have e: "pte (pmem m) root (pg k) AND PTE_V = 0" using Suc.prems(4) [of "pg k"] k by (simp add: vpn_pg)
  from Suc.prems(1) k(1) e show ?case
  proof (cases rule: mappages_step [where b = "pg n" and pa = pa and perm = perm])
    case (fails m1)
    then show ?thesis using k by (intro exI [of _ "- 1"] exI [of _ m1] exI [of _ "[]"] exI [of _ k])
      (auto simp: maps_def)
  next
    case (stores m2 ps2)
    have "vm_inv h root m2 ps2" using stores(2) by (simp add: vm_step_def)
    moreover have "pte (pmem m2) root va AND PTE_V = 0" if "Suc k \<le> vpn va" "vpn va \<le> n" for va
      using that Suc.prems(4) [of va] stores(3) [of va] by simp
    ultimately obtain r m' ps' c where
      r: "mappages_loop h root (pg (Suc k)) (pg n) (pa + PGSIZE) perm m2 = Ok (r, m')"
      "vm_step h root m2 ps2 m' ps'" "maps (pmem m2) (pmem m') root (Suc k) c (pa + PGSIZE) perm"
      "Suc k \<le> c" "r = 0 \<and> c = Suc n \<or> r = - 1 \<and> c \<le> n \<and> ps' = []"
      using Suc.IH [of m2 ps2 "Suc k" "pa + PGSIZE"] Suc.prems(2,3) by (metis add_Suc_shift)
    have "maps (pmem m) (pmem m') root k c pa perm" using maps_Cons [OF r(3) _ stores(3)] r(4) by simp
    moreover have "mappages_loop h root (pg k) (pg n) pa perm m = Ok (r, m')"
      using stores(1) k(4) r(1) by simp
    ultimately show ?thesis using r(4,5) vm_step_trans [OF stores(2) r(2)] by (metis Suc_leD)
  qed
qed

end
