(* ===== verification/Uspace.thy ===== *)
theory Uspace
  imports Pagetable
begin

text \<open>
  User address spaces: what \<open>mappages\<close>, \<open>uvmunmap\<close>, \<open>uvmcreate\<close>, \<open>uvmalloc\<close>, \<open>uvmcopy\<close>, \<open>uvmfree\<close>, \<open>copyout\<close>
  and \<open>copyin\<close> of vm.c do to the pages a process sees.  \<open>as_inv h root m ps n\<close> is the invariant of an
  address space of \<open>n\<close> pages: each is mapped to a page of its own, outside of the tables and of the
  free list \<open>ps\<close>.
\<close>

unbundle bit_operations_syntax

section \<open>Mapping a range\<close>

lemma PGROUNDDOWN_pg: "va < MAXVA \<Longrightarrow> PGROUNDDOWN va = pg (vpn va)"
  using unat_pg [of "vpn va"] vpn_less [of va]
  by (simp add: word_unat_eq_iff unat_PGROUNDDOWN vpn_below)

lemma vpn_mono: "va \<le> va' \<Longrightarrow> va' < MAXVA \<Longrightarrow> vpn va \<le> vpn va'"
proof -
  assume "va \<le> va'" and "va' < MAXVA"
  moreover from this have "va < MAXVA" by (rule le_less_trans)
  ultimately show ?thesis by (simp add: vpn_below word_le_nat_alt div_le_mono)
qed

lemma empty_table:
  assumes "\<And>i. unat i < 512 \<Longrightarrow> ld64 (pmem m) (root + 8 * i) = 0"
  shows "tab (pmem m) root va (Suc n) = None" and "tables (pmem m) root = {root}"
    and "pte (pmem m) root va = 0" and "page_ok m root \<Longrightarrow> pt_ok m root"
proof -
  show tab: "tab (pmem m) root va (Suc n) = None" for va n
    by (induction n) (simp_all add: assms PX_less)
  have root: "tab (pmem m) root va n = Some t \<longleftrightarrow> n = 0 \<and> t = root" for va n t
    using tab by (cases n) auto
  show tabs: "tables (pmem m) root = {root}" by (auto simp: tables_def root)
  show "pte (pmem m) root va = 0" using tab [of va 1] by (simp add: pte_def numeral_2_eq_2)
  show "page_ok m root \<Longrightarrow> pt_ok m root"
    by (auto simp: pt_ok_def tabs root dirs_ok_def assms PX_less same_upto_def)
qed

text \<open>
  C6. mappages maps what it is asked to map and nothing else.  For a range of user addresses with no
  valid entry it returns 0 with the entry of every page of the range set to the consecutive physical
  pages from pa with the permissions asked for and every other entry as it was, or it returns -1
  because the free list ran out.  Pages are only taken from the free list for tables, and no byte
  outside of the tables changes.
\<close>

theorem mappages_maps_range:
  assumes inv: "vm_inv h root m ps" and sz: "0 < sz" "unat va + unat sz \<le> unat MAXVA"
    and free: "\<forall>va'. vpn va \<le> vpn va' \<longrightarrow> vpn va' \<le> vpn (va + sz - 1) \<longrightarrow> pte (pmem m) root va' AND PTE_V = 0"
  shows "\<exists>r m' ps'. mappages h root va sz pa perm m = Ok (r, m') \<and> vm_step h root m ps m' ps' \<and>
    (r = 0 \<and> maps (pmem m) (pmem m') root (vpn va) (Suc (vpn (va + sz - 1))) pa perm \<or>
     r = - 1 \<and> ps' = [])"
proof -
  have e: "unat (va + sz - 1) = unat va + unat sz - 1"
  proof -
    have "unat (va + sz) = unat va + unat sz" using sz(2) by (simp add: unat_word_ariths)
    moreover have "va + sz \<noteq> 0" using sz(1) calculation 
      by (metis add_is_0 unat_0 unat_eq_zero word_gt_0_no less_irrefl word_less_nat_alt)
    ultimately show ?thesis by (simp add: unat_minus_one)
  qed
  moreover have "0 < unat sz" using sz(1) by (simp add: word_less_nat_alt)
  ultimately have a: "va + sz - 1 < MAXVA" "va \<le> va + sz - 1"
    using sz(2) by (auto simp: word_less_nat_alt word_le_nat_alt)
  then have va: "va < MAXVA" by (meson le_less_trans)
  have "vpn va \<le> vpn (va + sz - 1)" using a by (simp add: vpn_mono)
  then obtain d where "vpn va + d = vpn (va + sz - 1)" using le_Suc_ex by metis
  then show ?thesis
    using mappages_loop_spec [OF inv vpn_less [OF a(1)], of "vpn va" d pa perm] free
    by (auto simp: mappages_def PGROUNDDOWN_pg a(1) va)
qed

text \<open>A machine with an empty table at \<open>0x80022000\<close> and two free pages.\<close>

definition boot_machine :: machine where
  "boot_machine = idle_machine\<lparr>freelist := 0x80023000, pmem := st64 (\<lambda>_. 0) 0x80023000 0x80024000\<rparr>"

lemma boot_entries: "p mod PGSIZE = 0 \<Longrightarrow> p \<noteq> 0x80023000 \<Longrightarrow> unat i < 512 \<Longrightarrow>
    ld64 (pmem boot_machine) (p + 8 * i) = 0"
  using ld64_st64_other_entry [of i 0 p "0x80023000" "\<lambda>_. 0" "0x80024000"]
    ld64_zero [of "p + 8 * i" "\<lambda>_. 0"]
  by (simp add: boot_machine_def)

lemma boot_vm_inv: "vm_inv 0 0x80022000 boot_machine [0x80023000, 0x80024000]"
proof -
  have "ld64 (pmem boot_machine) 0x80023000 = 0x80024000" by (simp add: boot_machine_def mem_simps)
  moreover have "ld64 (pmem boot_machine) 0x80024000 = 0" using boot_entries [of "0x80024000" 0] by simp
  ultimately have "kalloc_inv 0 boot_machine [0x80023000, 0x80024000]"
    by (simp add: kalloc_inv_def kmem_inv_def page_ok_def)
      (simp add: boot_machine_def idle_machine_def lock_free_def cpu_ok_def)
  moreover have "page_ok boot_machine 0x80022000"
    by (simp add: boot_machine_def idle_machine_def page_ok_def)
  ultimately show ?thesis using empty_table [of boot_machine "0x80022000"] boot_entries
    by (simp add: vm_inv_def)
qed

theorem mappages_maps_range_witness:
  "\<exists>r m' ps'. mappages 0 0x80022000 0x1000 0x1000 0x80030000 PTE_R boot_machine = Ok (r, m') \<and>
     vm_step 0 0x80022000 boot_machine [0x80023000, 0x80024000] m' ps' \<and>
     (r = 0 \<and> maps (pmem boot_machine) (pmem m') 0x80022000 1 (Suc 1) 0x80030000 PTE_R \<or> r = - 1 \<and> ps' = [])"
proof -
  have "pte (pmem boot_machine) 0x80022000 va = 0" for va
    by (rule empty_table(3)) (simp add: boot_entries)
  moreover have "vpn 0x1000 = 1" "vpn 0x1FFF = 1" by (simp_all add: vpn_def)
  ultimately show ?thesis
    using mappages_maps_range [OF boot_vm_inv, of "0x1000" "0x1000" "0x80030000" PTE_R] by simp
qed

section \<open>The pages of an address space\<close>

abbreviation upte :: "mem \<Rightarrow> u64 \<Rightarrow> nat \<Rightarrow> u64" where "upte w root i \<equiv> pte w root (pg i)"

definition upage :: "mem \<Rightarrow> u64 \<Rightarrow> nat \<Rightarrow> u64" where
  "upage w root i = PTE2PA (upte w root i)"

definition leaf :: "u64 \<Rightarrow> bool" where
  "leaf e = (e AND PTE_V \<noteq> 0 \<and> PTE_FLAGS e \<noteq> PTE_V)"

definition user_pages :: "machine \<Rightarrow> u64 \<Rightarrow> u64 list \<Rightarrow> nat \<Rightarrow> nat \<Rightarrow> bool" where
  "user_pages m root ps k n =
    ((\<forall>i \<in> {k..<n}. leaf (upte (pmem m) root i) \<and> page_ok m (upage (pmem m) root i) \<and>
        upage (pmem m) root i \<notin> tables (pmem m) root \<and> upage (pmem m) root i \<notin> set ps) \<and>
     inj_on (upage (pmem m) root) {k..<n})"

text \<open>Bytes outside of the pages in \<open>S\<close> are the same.\<close>

definition bytes_off :: "u64 set \<Rightarrow> mem \<Rightarrow> mem \<Rightarrow> bool" where
  "bytes_off S w w' = (\<forall>x. (\<forall>p \<in> S. \<not> within x p 4096) \<longrightarrow> w' x = w x)"

lemma bytes_off_trans: "bytes_off S w w' \<Longrightarrow> bytes_off S' w' w'' \<Longrightarrow> bytes_off (S \<union> S') w w''"
  by (auto simp: bytes_off_def)

lemma bytes_off_mono: "bytes_off S w w' \<Longrightarrow> S \<subseteq> S' \<Longrightarrow> bytes_off S' w w'"
  by (auto simp: bytes_off_def)

lemma bytes_off_refl [simp]: "bytes_off S w w"
  by (simp add: bytes_off_def)

lemma bytes_off_page:
  assumes "bytes_off S w w'" and "\<And>p. p \<in> S \<Longrightarrow> p mod PGSIZE = 0" and "q mod PGSIZE = 0"
    and "q \<notin> S" and "within x q 4096"
  shows "w' x = w x"
proof -
  have "\<not> within x p 4096" if "p \<in> S" for p
    using same_page [OF _ assms(5) assms(2) [OF that] assms(3)] that assms(4) by blast
  then show ?thesis using assms(1) by (simp add: bytes_off_def)
qed

lemma page_okD: "page_ok m p \<Longrightarrow> p mod PGSIZE = 0" "page_ok m p \<Longrightarrow> p \<noteq> 0"
  by (simp_all add: page_ok_def)

lemma vm_inv_table: "vm_inv h root m ps \<Longrightarrow> t \<in> tables (pmem m) root \<Longrightarrow> page_ok m t"
  by (simp add: vm_inv_def pt_ok_def)

lemma vm_inv_free: "vm_inv h root m ps \<Longrightarrow> p \<in> set ps \<Longrightarrow> page_ok m p \<and> p \<notin> tables (pmem m) root"
  by (auto simp: vm_inv_def kalloc_inv_def kmem_inv_def)

lemma vm_off_tables:
  assumes inv: "vm_inv h root m ps" and off: "bytes_off S (pmem m) (pmem m')" and "mem_only h m m'"
    and S: "\<And>p. p \<in> S \<Longrightarrow> page_ok m p" "S \<inter> tables (pmem m) root = {}"
  shows "pt_ok m' root" and "n \<le> 2 \<Longrightarrow> tab (pmem m') root va n = tab (pmem m) root va n"
    and "tables (pmem m') root = tables (pmem m) root" and "pte (pmem m') root = pte (pmem m) root"
    and "pte_addr (pmem m') root = pte_addr (pmem m) root"
proof -
  have same: "pmem m' x = pmem m x" if "t \<in> tables (pmem m) root" "within x t 4096" for t x
  proof (rule bytes_off_page [OF off])
    show "t mod PGSIZE = 0" using vm_inv_table [OF inv that(1)] by (rule page_okD)
    show "t \<notin> S" using S(2) that(1) by blast
    show "p \<in> S \<Longrightarrow> p mod PGSIZE = 0" for p using S(1) by (rule page_okD)
  qed (rule that(2))
  note fr = tab_frame_bytes [OF same]
  show "pt_ok m' root" using pt_ok_frame [OF same] mem_onlyD(2) [OF assms(3)] inv by (simp add: vm_inv_def)
  show "n \<le> 2 \<Longrightarrow> tab (pmem m') root va n = tab (pmem m) root va n" using fr(1) by simp
  show "tables (pmem m') root = tables (pmem m) root" "pte (pmem m') root = pte (pmem m) root"
    using fr by simp_all
  show "pte_addr (pmem m') root = pte_addr (pmem m) root"
    using fr(1) by (simp add: pte_addr_def fun_eq_iff)
qed

lemma kfree_gives:
  assumes inv: "kalloc_inv h m ps" and "page_ok m p" and "p \<notin> set ps"
  obtains m1 where "kfree h p m = Ok m1" "kalloc_inv h m1 (p # ps)" "mem_only h m m1"
    "bytes_off {p} (pmem m) (pmem m1)"
proof -
  let ?m = "touch h (m\<lparr>pmem := st64 (memset (pmem m) p 1 4096) p (freelist m), freelist := p\<rparr>)"
  have "kfree h p m = Ok ?m" "kmem_inv ?m (p # ps)"
    using assms kfree_page [of m ps h p] by (simp_all add: kalloc_inv_def)
  moreover have "kalloc_inv h ?m (p # ps)"
    using inv \<open>kmem_inv ?m (p # ps)\<close> by (simp add: kalloc_inv_def lock_simps)
  moreover have "mem_only h m ?m" by (simp add: mem_only_def touch_upd lock_simps)
  moreover have "bytes_off {p} (pmem m) (pmem ?m)"
    unfolding bytes_off_def
  proof (intro allI impI)
    fix x assume "\<forall>q \<in> {p}. \<not> within x q 4096"
    then have "\<not> within x p 4096" "\<not> within x p 8" by (simp_all add: within_def)
    then show "pmem ?m x = pmem m x" by (simp add: st_outside memset_eq)
  qed
  ultimately show ?thesis by (intro that [of ?m])
qed

lemma vm_kfree:
  assumes inv: "vm_inv h root m ps" and p: "page_ok m p" "p \<notin> set ps" "p \<notin> tables (pmem m) root"
  obtains m1 where "kfree h p m = Ok m1" "vm_inv h root m1 (p # ps)" "mem_only h m m1"
    "bytes_off {p} (pmem m) (pmem m1)" "tables (pmem m1) root = tables (pmem m) root"
    "pte (pmem m1) root = pte (pmem m) root" "pte_addr (pmem m1) root = pte_addr (pmem m) root"
proof -
  from inv have "kalloc_inv h m ps" by (simp add: vm_inv_def)
  from kfree_gives [OF this p(1,2)] obtain m1 where m1: "kfree h p m = Ok m1"
    "kalloc_inv h m1 (p # ps)" "mem_only h m m1" "bytes_off {p} (pmem m) (pmem m1)" .
  note off = vm_off_tables [OF inv m1(4,3)]
  have "vm_inv h root m1 (p # ps)"
    using inv m1(2) off(1,3) p by (auto simp: vm_inv_def)
  then show ?thesis using m1 off(3-5) p by (intro that [of m1]) auto
qed

section \<open>Unmapping\<close>

lemma leaf_addr: "pte w root va AND PTE_V \<noteq> 0 \<Longrightarrow> pte_addr w root va \<noteq> 0 \<or> \<not> pt_ok (m\<lparr>pmem := w\<rparr>) root"
  using pte_addr_0 [of "m\<lparr>pmem := w\<rparr>" root va] by (auto simp: pte_def split: option.splits)

lemma vm_inv_leaf:
  assumes "vm_inv h root m ps" and "pte (pmem m) root va AND PTE_V \<noteq> 0"
  shows "pte_addr (pmem m) root va \<noteq> 0"
  using leaf_addr [of "pmem m" root va m] assms by (simp add: vm_inv_def)

lemma uvmunmap_step:
  assumes inv: "vm_inv h root m ps" and k: "k < NPAGES" "k < n" "n \<le> NPAGES"
    and l: "leaf (upte (pmem m) root k)"
    and p: "page_ok m (upage (pmem m) root k)" "upage (pmem m) root k \<notin> set ps"
      "upage (pmem m) root k \<notin> tables (pmem m) root"
  obtains m2 where "uvmunmap_loop h root (pg k) (pg n) True m = uvmunmap_loop h root (pg (Suc k)) (pg n) True m2"
    "vm_inv h root m2 (upage (pmem m) root k # ps)" "mem_only h m m2"
    "tables (pmem m2) root = tables (pmem m) root"
    "\<And>va. pte (pmem m2) root va = (if vpn va = k then 0 else pte (pmem m) root va)"
    "bytes_off (insert (upage (pmem m) root k) (tables (pmem m) root)) (pmem m) (pmem m2)"
proof -
  let ?p = "upage (pmem m) root k" and ?a = "pte_addr (pmem m) root (pg k)"
  have a: "?a \<noteq> 0" using vm_inv_leaf [OF inv] l by (simp add: leaf_def)
  obtain m1 where m1: "kfree h ?p m = Ok m1" "vm_inv h root m1 (?p # ps)" "mem_only h m m1"
    "bytes_off {?p} (pmem m) (pmem m1)" "tables (pmem m1) root = tables (pmem m) root"
    "pte (pmem m1) root = pte (pmem m) root" "pte_addr (pmem m1) root = pte_addr (pmem m) root"
    using vm_kfree [OF inv p] by blast
  define m2 where "m2 = m1\<lparr>pmem := st64 (pmem m1) ?a 0\<rparr>"
  note st = vm_store [OF m1(2), of "pg k" 0, unfolded m1(7), OF a, folded m2_def]
  have "walk h root (pg k) False m = Ok (?a, m)" by (rule walk_lookup [OF pg_MAXVA [OF k(1)]])
  moreover have "pg k < pg n" using k by (simp add: pg_less_iff)
  ultimately have "uvmunmap_loop h root (pg k) (pg n) True m = uvmunmap_loop h root (pg (Suc k)) (pg n) True m2"
    using a l m1(1) unfolding pg_Suc [symmetric]
    by (subst uvmunmap_loop.simps) (simp add: pte_addr_ld leaf_def m2_def Let_def upage_def)
  moreover have "vm_inv h root m2 (?p # ps)" "bytes_off (tables (pmem m) root) (pmem m1) (pmem m2)"
    "mem_only h m m2"
    using st(1) m1(3,5) mem_only_trans [OF m1(3)] by (auto simp: vm_step_def bytes_off_def)
  moreover from this have "bytes_off (insert ?p (tables (pmem m) root)) (pmem m) (pmem m2)"
    using bytes_off_trans [OF m1(4)] by fastforce
  ultimately show ?thesis using st(2,3) m1(5,6) by (intro that [of m2]) (simp_all add: vpn_pg [OF k(1)])
qed

lemma user_pages_step:
  assumes "user_pages m root ps k n" and "k < n" and "n \<le> NPAGES" and "mem_only h m m2"
    and "tables (pmem m2) root = tables (pmem m) root"
    and "\<And>va. pte (pmem m2) root va = (if vpn va = k then 0 else pte (pmem m) root va)"
  shows "user_pages m2 root (upage (pmem m) root k # ps) (Suc k) n"
    and "i \<in> {Suc k..<n} \<Longrightarrow> upage (pmem m2) root i = upage (pmem m) root i"
proof -
  have e: "upte (pmem m2) root i = upte (pmem m) root i" if "i \<in> {Suc k..<n}" for i
    using that assms(3,6) by (simp add: vpn_pg)
  then show u: "upage (pmem m2) root i = upage (pmem m) root i" if "i \<in> {Suc k..<n}" for i
    using that by (simp add: upage_def)
  have inj: "inj_on (upage (pmem m) root) {k..<n}" using assms(1) by (simp add: user_pages_def)
  have ne: "upage (pmem m) root i \<noteq> upage (pmem m) root k" if "i \<in> {Suc k..<n}" for i
    using inj_onD [OF inj, of i k] that assms(2) by auto
  have "inj_on (upage (pmem m2) root) {Suc k..<n}"
    using inj_on_subset [OF inj, of "{Suc k..<n}"] inj_on_cong [of "{Suc k..<n}", OF u] by auto
  then show "user_pages m2 root (upage (pmem m) root k # ps) (Suc k) n"
    using assms(1) ne mem_onlyD(5) [OF assms(4)] by (auto simp: user_pages_def e u assms(5))
qed

lemma uvmunmap_loop_frees:
  "vm_inv h root m ps \<Longrightarrow> user_pages m root ps k n \<Longrightarrow> k + d = n \<Longrightarrow> n \<le> NPAGES \<Longrightarrow>
   \<exists>m' ps'. uvmunmap_loop h root (pg k) (pg n) True m = Ok m' \<and> vm_inv h root m' ps' \<and>
     mem_only h m m' \<and> set ps' = set ps \<union> upage (pmem m) root ` {k..<n} \<and>
     tables (pmem m') root = tables (pmem m) root \<and>
     (\<forall>va. pte (pmem m') root va = (if k \<le> vpn va \<and> vpn va < n then 0 else pte (pmem m) root va)) \<and>
     bytes_off (upage (pmem m) root ` {k..<n} \<union> tables (pmem m) root) (pmem m) (pmem m')"
proof (induction d arbitrary: m ps k)
  case 0
  then have "uvmunmap_loop h root (pg k) (pg n) True m = Ok m"
    by (subst uvmunmap_loop.simps) simp
  then show ?case using 0 by (intro exI [of _ m] exI [of _ ps]) auto
next
  case (Suc d)
  let ?p = "upage (pmem m) root k"
  have k: "k < NPAGES" "k < n" using Suc.prems by simp_all
  have "leaf (upte (pmem m) root k)" "page_ok m ?p" "?p \<notin> set ps" "?p \<notin> tables (pmem m) root"
    using Suc.prems(2) k by (auto simp: user_pages_def)
  from uvmunmap_step [OF Suc.prems(1) k Suc.prems(4) this] obtain m2 where
    m2: "uvmunmap_loop h root (pg k) (pg n) True m = uvmunmap_loop h root (pg (Suc k)) (pg n) True m2"
    "vm_inv h root m2 (?p # ps)" "mem_only h m m2" "tables (pmem m2) root = tables (pmem m) root"
    "\<And>va. pte (pmem m2) root va = (if vpn va = k then 0 else pte (pmem m) root va)"
    "bytes_off (insert ?p (tables (pmem m) root)) (pmem m) (pmem m2)" by blast
  note up = user_pages_step [OF Suc.prems(2) k(2) Suc.prems(4) m2(3-5)]
  have im: "upage (pmem m2) root ` {Suc k..<n} = upage (pmem m) root ` {Suc k..<n}"
    using up(2) by (intro image_cong) simp_all
  from Suc.IH [OF m2(2) up(1) _ Suc.prems(4)] Suc.prems(3) obtain m' ps' where
    r: "uvmunmap_loop h root (pg (Suc k)) (pg n) True m2 = Ok m'" "vm_inv h root m' ps'" "mem_only h m2 m'"
    "set ps' = set (?p # ps) \<union> upage (pmem m) root ` {Suc k..<n}"
    "tables (pmem m') root = tables (pmem m) root"
    "\<forall>va. pte (pmem m') root va = (if Suc k \<le> vpn va \<and> vpn va < n then 0 else pte (pmem m2) root va)"
    "bytes_off (upage (pmem m) root ` {Suc k..<n} \<union> tables (pmem m) root) (pmem m2) (pmem m')"
    unfolding im m2(4) by auto
  have kn: "{k..<n} = insert k {Suc k..<n}" using k(2) by auto
  have "bytes_off (upage (pmem m) root ` {k..<n} \<union> tables (pmem m) root) (pmem m) (pmem m')"
    using bytes_off_trans [OF m2(6) r(7)] by (rule bytes_off_mono) (auto simp: kn)
  moreover have "\<forall>va. pte (pmem m') root va = (if k \<le> vpn va \<and> vpn va < n then 0 else pte (pmem m) root va)"
    using r(6) m2(5) k(2) by (auto simp: Suc_le_eq)
  ultimately show ?case using m2(1) r(1-5) mem_only_trans [OF m2(3) r(3)]
    by (intro exI [of _ m'] exI [of _ ps']) (simp add: kn)
qed

section \<open>An address space of one page\<close>

text \<open>A table at \<open>0x80022000\<close> that maps page 0 to the page \<open>0x80025000\<close> with all permissions.\<close>

definition one_page :: machine where
  "one_page = idle_machine\<lparr>pmem := st64 (st64 (st64 (\<lambda>_. 0) 0x80022000 (PA2PTE 0x80023000 OR PTE_V))
     0x80023000 (PA2PTE 0x80024000 OR PTE_V)) 0x80024000 (PA2PTE 0x80025000 OR 0x1F)\<rparr>"

lemma one_page_entry:
  assumes "t mod PGSIZE = 0" and "unat i < 512"
  shows "ld64 (pmem one_page) (t + 8 * i) =
    (if i \<noteq> 0 then 0 else if t = 0x80024000 then PA2PTE 0x80025000 OR 0x1F
     else if t = 0x80023000 then PA2PTE 0x80024000 OR PTE_V
     else if t = 0x80022000 then PA2PTE 0x80023000 OR PTE_V else 0)"
proof -
  have *: "ld64 (st64 w p v) (t + 8 * i) = (if i = 0 \<and> t = p then v else ld64 w (t + 8 * i))"
    if "p mod PGSIZE = 0" for w p v
    using ld64_st64_other_entry [OF assms(2), of 0 t p w v] that assms(1)
    by (cases "i = 0 \<and> t = p") (auto simp: mem_simps)
  have "ld64 (pmem one_page) (t + 8 * i) =
    (if i = 0 \<and> t = 0x80024000 then PA2PTE 0x80025000 OR 0x1F
     else if i = 0 \<and> t = 0x80023000 then PA2PTE 0x80024000 OR PTE_V
     else if i = 0 \<and> t = 0x80022000 then PA2PTE 0x80023000 OR PTE_V else ld64 (\<lambda>_. 0) (t + 8 * i))"
  proof -
    have w: "pmem one_page = st64 (st64 (st64 (\<lambda>_. 0) 0x80022000 (PA2PTE 0x80023000 OR PTE_V))
        0x80023000 (PA2PTE 0x80024000 OR PTE_V)) 0x80024000 (PA2PTE 0x80025000 OR 0x1F)"
      by (simp add: one_page_def)
    have al: "(0x80022000 :: u64) mod PGSIZE = 0" "(0x80023000 :: u64) mod PGSIZE = 0"
      "(0x80024000 :: u64) mod PGSIZE = 0" by simp_all
    show ?thesis unfolding w * [OF al(1)] * [OF al(2)] * [OF al(3)] ..
  qed
  then show ?thesis by (auto simp: ld64_zero)
qed

lemmas one_page_entry0 = one_page_entry [of _ 0, simplified]

lemma one_page_tab:
  "tab (pmem one_page) 0x80022000 va (Suc 0) = (if PX 2 va = 0 then Some 0x80023000 else None)"
  "tab (pmem one_page) 0x80022000 va 2 = (if PX 2 va = 0 \<and> PX 1 va = 0 then Some 0x80024000 else None)"
proof -
  have v: "PTE2PA (PA2PTE p OR PTE_V) = p" "(PA2PTE p OR PTE_V) AND PTE_V \<noteq> 0" if "p mod PGSIZE = 0" for p
    using PTE2PA_PA2PTE [OF that, of 1] by (auto simp: word_ao_dist2 and.commute)
  show 1: "tab (pmem one_page) 0x80022000 va (Suc 0) = (if PX 2 va = 0 then Some 0x80023000 else None)"
    by (cases "PX 2 va = 0") (simp_all add: one_page_entry0 one_page_entry PX_less v Let_def)
  have "tab (pmem one_page) 0x80022000 va (Suc (Suc 0)) =
      (if PX 2 va = 0 \<and> PX 1 va = 0 then Some 0x80024000 else None)"
    by (cases "PX 1 va = 0")
      (simp_all add: 1 one_page_entry0 one_page_entry PX_less v Let_def del: tab.simps(2),
       simp_all add: tab.simps(2) [of _ _ _ "Suc 0"] 1 one_page_entry0 one_page_entry PX_less v Let_def)
  then show "tab (pmem one_page) 0x80022000 va 2 = (if PX 2 va = 0 \<and> PX 1 va = 0 then Some 0x80024000 else None)"
    by (simp add: numeral_2_eq_2)
qed

lemma one_page_pte:
  "pte (pmem one_page) 0x80022000 va = (if vpn va = 0 then PA2PTE 0x80025000 OR 0x1F else 0)"
proof -
  have "vpn va = 0 \<longleftrightarrow> same_upto 3 va 0" using same_upto_vpn [of va 0] by (simp add: vpn_def)
  moreover have "same_upto 3 va 0 \<longleftrightarrow> PX 2 va = 0 \<and> PX 1 va = 0 \<and> PX 0 va = 0"
    by (auto simp: same_upto_def PX_def less_Suc_eq numeral_3_eq_3 numeral_2_eq_2)
  ultimately show ?thesis
    by (cases "PX 0 va = 0") (auto simp: pte_def one_page_tab one_page_entry0 one_page_entry PX_less)
qed

lemma one_page_tables: "tables (pmem one_page) 0x80022000 = {0x80022000, 0x80023000, 0x80024000}"
proof -
  have "\<exists>va n. n \<le> 2 \<and> tab (pmem one_page) 0x80022000 va n = Some t \<Longrightarrow> t \<in> {0x80022000, 0x80023000, 0x80024000}" for t
    by (auto simp: le_Suc_eq numeral_2_eq_2 one_page_tab [unfolded numeral_2_eq_2] split: if_splits
        simp del: tab.simps(2))
  moreover have "PX l 0 = 0" for l by (simp add: PX_def)
  then have "tab (pmem one_page) 0x80022000 0 0 = Some 0x80022000"
    "tab (pmem one_page) 0x80022000 0 (Suc 0) = Some 0x80023000"
    "tab (pmem one_page) 0x80022000 0 2 = Some 0x80024000" by (simp_all add: one_page_tab del: tab.simps(2))
  then have "{0x80022000, 0x80023000, 0x80024000} \<subseteq> tables (pmem one_page) 0x80022000"
    using tablesI [of _ _ 0 0] tablesI [of _ _ 0 "Suc 0"] tablesI [of _ _ 0 2] by auto
  ultimately show ?thesis by (auto simp: tables_def)
qed

lemma one_page_ok: "pt_ok one_page 0x80022000"
proof -
  have tab: "tab (pmem one_page) 0x80022000 va n = Some t \<longleftrightarrow>
      n = 0 \<and> t = 0x80022000 \<or> n = 1 \<and> PX 2 va = 0 \<and> t = 0x80023000 \<or>
      n = 2 \<and> PX 2 va = 0 \<and> PX 1 va = 0 \<and> t = 0x80024000" if "n \<le> 2" for va n t
    using that by (auto simp: le_Suc_eq numeral_2_eq_2 one_page_tab [unfolded numeral_2_eq_2]
        split: if_splits simp del: tab.simps(2))
  have v: "PTE_FLAGS (PA2PTE p OR PTE_V) = PTE_V" if "p mod PGSIZE = 0" for p
    using PTE2PA_PA2PTE [OF that, of 1] by simp
  have "dirs_ok (pmem one_page) 0x80022000"
    unfolding dirs_ok_def
  proof (intro allI impI)
    fix va n t
    assume "n < 2" "tab (pmem one_page) 0x80022000 va n = Some t"
      and e: "ld64 (pmem one_page) (t + 8 * PX (2 - n) va) AND PTE_V \<noteq> 0"
    then have t: "t = 0x80022000 \<or> t = 0x80023000" using tab [of n va t] by auto
    have "PX (2 - n) va = 0"
      by (rule ccontr) (use e t in \<open>auto simp: one_page_entry PX_less\<close>)
    then show "PTE_FLAGS (ld64 (pmem one_page) (t + 8 * PX (2 - n) va)) = PTE_V"
      using t by (auto simp: one_page_entry0 v)
  qed
  moreover have "\<forall>t \<in> tables (pmem one_page) 0x80022000. page_ok one_page t"
    unfolding one_page_tables by (simp add: page_ok_def one_page_def idle_machine_def)
  moreover have "same_upto 0 va va'" "same_upto 1 va va' \<longleftrightarrow> PX 2 va = PX 2 va'"
    "same_upto 2 va va' \<longleftrightarrow> PX 2 va = PX 2 va' \<and> PX 1 va = PX 1 va'" for va va'
    using same_upto_Suc [of 0 va va'] same_upto_Suc [of 1 va va']
    by (simp_all add: same_upto_def [of 0] numeral_2_eq_2)
  ultimately show ?thesis by (auto simp: pt_ok_def tab)
qed

lemma one_page_inv: "vm_inv 0 0x80022000 one_page []" and one_page_pages: "user_pages one_page 0x80022000 [] 0 1"
proof -
  have k: "kalloc_inv 0 one_page []"
    by (simp add: kalloc_inv_def kmem_inv_empty one_page_def idle_machine_def lock_free_def cpu_ok_def)
  then show "vm_inv 0 0x80022000 one_page []" by (simp add: vm_inv_def one_page_ok)
  have p: "upage (pmem one_page) 0x80022000 0 = 0x80025000"
    using PTE2PA_PA2PTE(1) [of "0x80025000" "0x1F"] by (simp add: upage_def one_page_pte vpn_def)
  have l: "leaf (upte (pmem one_page) 0x80022000 0)"
    using PTE2PA_PA2PTE(2) [of "0x80025000" "0x1F"] by (simp add: leaf_def one_page_pte vpn_def PA2PTE_def)
  have "page_ok one_page 0x80025000" by (simp add: page_ok_def one_page_def idle_machine_def)
  then show "user_pages one_page 0x80022000 [] 0 1"
    using l by (simp add: user_pages_def p one_page_tables)
qed

text \<open>
  C8. Unmapping gives back exactly the pages that were mapped: on a range of pages that are all
  mapped, each to a page of its own, uvmunmap with do_free returns; the free list has gained those
  pages and no others, their entries are 0, every other entry is as it was, and no byte
  outside of the freed pages and the tables changed.
\<close>

theorem uvmunmap_frees_pages:
  assumes "vm_inv h root m ps" and "user_pages m root ps k (k + d)" and "k + d \<le> NPAGES"
  shows "\<exists>m' ps'. uvmunmap h root (pg k) (of_nat d) True m = Ok m' \<and> vm_inv h root m' ps' \<and>
    set ps' = set ps \<union> upage (pmem m) root ` {k..<k + d} \<and>
    (\<forall>va. pte (pmem m') root va = (if k \<le> vpn va \<and> vpn va < k + d then 0 else pte (pmem m) root va)) \<and>
    bytes_off (upage (pmem m) root ` {k..<k + d} \<union> tables (pmem m) root) (pmem m) (pmem m')"
proof -
  have "pg k + of_nat d * PGSIZE = pg (k + d)" by (simp add: distrib_right)
  then have "uvmunmap h root (pg k) (of_nat d) True m = uvmunmap_loop h root (pg k) (pg (k + d)) True m"
    using pg_aligned [of k] assms(3) by (simp add: uvmunmap_def)
  then show ?thesis using uvmunmap_loop_frees [OF assms(1,2) refl assms(3)] by metis
qed

theorem uvmunmap_frees_pages_witness:
  "\<exists>m' ps'. uvmunmap 0 0x80022000 0 1 True one_page = Ok m' \<and> vm_inv 0 0x80022000 m' ps' \<and>
    (\<forall>va. pte (pmem m') 0x80022000 va = (if vpn va = 0 then 0 else pte (pmem one_page) 0x80022000 va))"
proof -
  have "user_pages one_page 0x80022000 [] 0 (0 + 1)" using one_page_pages by simp
  from uvmunmap_frees_pages [OF one_page_inv this] show ?thesis by auto
qed

end
