(* ===== verification/Ucopy.thy ===== *)
theory Ucopy
  imports Uspace
begin

text \<open>
  \<open>copyout\<close> and \<open>copyin\<close> of vm.c on the bytes of user space.  \<open>uaddr\<close> is the physical address of a user
  byte and \<open>urange\<close> says that a range of user bytes is mapped for the user, byte for byte apart and
  outside of the page tables.
\<close>

unbundle bit_operations_syntax

definition uok :: "mem \<Rightarrow> u64 \<Rightarrow> u64 \<Rightarrow> bool" where
  "uok w root va = (va < MAXVA \<and> pte w root va AND PTE_V \<noteq> 0 \<and> pte w root va AND ucast PTE_U \<noteq> 0 \<and>
    PTE2PA (pte w root va) \<noteq> 0)"

definition uaddr :: "mem \<Rightarrow> u64 \<Rightarrow> u64 \<Rightarrow> u64" where
  "uaddr w root va = PTE2PA (pte w root va) + (va - PGROUNDDOWN va)"

definition urange :: "mem \<Rightarrow> u64 \<Rightarrow> u64 \<Rightarrow> nat \<Rightarrow> bool" where
  "urange w root va n =
    (unat va + n \<le> 0x4000000000 \<and>
     (\<forall>i < n. uok w root (va + of_nat i) \<and>
        (\<forall>t \<in> tables w root. \<not> within (uaddr w root (va + of_nat i)) t 4096)) \<and>
     inj_on (\<lambda>i. uaddr w root (va + of_nat i)) {..<n})"

lemma walkaddr_pte:
  assumes "pt_ok m root"
  shows "walkaddr h root va m =
    Ok (if va < MAXVA \<and> pte (pmem m) root va AND PTE_V \<noteq> 0 \<and> pte (pmem m) root va AND ucast PTE_U \<noteq> 0
        then PTE2PA (pte (pmem m) root va) else 0)"
proof (cases "va < MAXVA")
  case True
  have "pte_addr (pmem m) root va = 0 \<Longrightarrow> pte (pmem m) root va = 0"
    using pte_addr_0 [OF assms, of va] by (simp add: pte_def)
  then show ?thesis using True walk_lookup [OF True, of h root m]
    by (auto simp: walkaddr_def pte_addr_ld Let_def)
qed (auto simp: walkaddr_def not_less)

lemma put_eq: "length bs < 2 ^ 64 \<Longrightarrow>
    put m a bs x = (if within x a (length bs) then bs ! unat (x - a) else m x)"
proof (induction bs arbitrary: m a)
  case (Cons b bs)
  then have n: "length bs < 2 ^ 64" by simp
  show ?case
  proof (cases "x = a")
    case True
    then have "\<not> within x (a + 1) (length bs)"
      using n by (simp add: within_def unsigned_minus_1_eq_mask mask_eq_exp_minus_1)
    then show ?thesis using True Cons.IH [OF n] by (simp add: within_def)
  next
    case False
    then have "x - a \<noteq> 0" by simp
    then have "unat (x - (a + 1)) = unat (x - a) - 1" "0 < unat (x - a)"
      using unat_minus_one [of "x - a"] by (simp_all add: diff_diff_eq unat_gt_0)
    then show ?thesis using False Cons.IH [OF n] by (auto simp: within_def nth_Cons')
  qed
qed (simp add: within_def)

lemma same_page_step:
  fixes va :: u64
  assumes "j < 4096 - unat va mod 4096" and "unat va + j < 2 ^ 64"
  shows "PGROUNDDOWN (va + of_nat j) = PGROUNDDOWN va" and "vpn (va + of_nat j) = vpn va"
proof -
  have "unat (of_nat j :: u64) = j" using assms(1) by (intro unat_of_nat_small) simp
  then have u: "unat (va + of_nat j) = unat va + j" using assms(2) by (simp add: unat_word_ariths)
  have d: "(unat va + j) div 4096 = unat va div 4096"
  proof (rule div_nat_eqI)
    show "4096 * (unat va div 4096) \<le> unat va + j" by (simp add: trans_le_add1)
    have "unat va = 4096 * (unat va div 4096) + unat va mod 4096" by simp
    then show "unat va + j < 4096 * Suc (unat va div 4096)" 
      using assms(1) unfolding mult_Suc_right by linarith
  qed
  show "PGROUNDDOWN (va + of_nat j) = PGROUNDDOWN va"
    by (simp add: word_unat_eq_iff unat_PGROUNDDOWN u d)
  show "vpn (va + of_nat j) = vpn va" by (simp add: vpn_def u d)
qed

lemma uaddr_step:
  assumes "j < 4096 - unat va mod 4096" and "unat va + j < 2 ^ 64"
  shows "uaddr w root (va + of_nat j) = uaddr w root va + of_nat j"
  using same_page_step [OF assms] pte_vpn [of "va + of_nat j" va w root]
  by (simp add: uaddr_def algebra_simps)

section \<open>copyout\<close>

lemma urange_drop:
  assumes "urange w root va (k + n)"
  shows "urange w root (va + of_nat k) n"
proof -
  have k: "unat va + (k + n) \<le> 0x4000000000" using assms by (simp add: urange_def)
  then have "unat (of_nat k :: u64) = k" by (intro unat_of_nat_small) simp
  then have u: "unat (va + of_nat k) = unat va + k" using k by (simp add: unat_word_ariths)
  have eq: "va + of_nat k + of_nat i = va + of_nat (k + i)" for i by (simp add: algebra_simps)
  have "inj_on (\<lambda>i. uaddr w root (va + of_nat (k + i))) {..<n}"
  proof (rule inj_onI)
    fix i j assume "i \<in> {..<n}" "j \<in> {..<n}"
      "uaddr w root (va + of_nat (k + i)) = uaddr w root (va + of_nat (k + j))"
    moreover have "inj_on (\<lambda>i. uaddr w root (va + of_nat i)) {..<k + n}" using assms by (simp add: urange_def)
    ultimately show "i = j" using inj_onD [of _ _ "k + i" "k + j"] by (metis add_left_cancel lessThan_iff nat_add_left_cancel_less)
  qed
  then show ?thesis using assms k by (auto simp: urange_def u eq simp del: of_nat_add)
qed

lemma urange_frame:
  assumes "urange w root va n" and "pte w' root = pte w root" and "tables w' root = tables w root"
  shows "urange w' root va n" and "uaddr w' root = uaddr w root"
  using assms by (simp_all add: urange_def uok_def uaddr_def fun_eq_iff)

lemma next_chunk:
  assumes "unat va + len \<le> 0x4000000000" and "n = chunk va len" and "n \<noteq> len"
  shows "PGROUNDDOWN va + PGSIZE = va + of_nat n"
proof -
  have n: "n = 4096 - unat va mod 4096" "n \<le> len"
    using assms(2,3) by (auto simp: chunk_eq min_def split: if_splits)
  then have "unat (of_nat n :: u64) = n" by (intro unat_of_nat_small) simp
  then have "unat (va + of_nat n) = unat va + n" using assms(1) n(2) by (simp add: unat_word_ariths)
  moreover have "unat va div 4096 * 4096 + 4096 = unat va + n"
    using n div_mult_mod_eq [of "unat va" 4096] mod_less_divisor [of 4096 "unat va"] by linarith
  moreover have "unat (PGROUNDDOWN va + PGSIZE) = unat va div 4096 * 4096 + 4096"
    using assms(1) n(2) calculation(2) by (simp add: unat_word_ariths unat_PGROUNDDOWN)
  ultimately show ?thesis by (simp add: word_unat_eq_iff)
qed

lemma urange_walkaddr:
  assumes ok: "pt_ok m root" and r: "urange (pmem m) root va len" and "0 < len"
  shows "walkaddr h root (PGROUNDDOWN va) m = Ok (PTE2PA (pte (pmem m) root va))"
    and "PTE2PA (pte (pmem m) root va) \<noteq> 0"
proof -
  have u: "uok (pmem m) root va" using r assms(3) by (auto simp: urange_def dest: spec [of _ 0])
  have "PGROUNDDOWN va \<le> va" by (simp add: word_le_nat_alt unat_PGROUNDDOWN)
  then have "PGROUNDDOWN va < MAXVA" using u by (auto simp: uok_def)
  moreover have "vpn (PGROUNDDOWN va) = vpn va" by (simp add: vpn_def unat_PGROUNDDOWN)
  ultimately show "walkaddr h root (PGROUNDDOWN va) m = Ok (PTE2PA (pte (pmem m) root va))"
    "PTE2PA (pte (pmem m) root va) \<noteq> 0"
    using walkaddr_pte [OF ok, of h "PGROUNDDOWN va"] pte_vpn [of "PGROUNDDOWN va" va] u
    by (simp_all add: uok_def)
qed

text \<open>One page of a copy: the bytes go to the addresses of the user bytes.\<close>

lemma put_chunk:
  assumes r: "urange (pmem m) root va (length bs)" and "bs \<noteq> []" and ok: "pt_ok m root"
    and n: "n = chunk va (length bs)"
  defines "m1 \<equiv> m\<lparr>pmem := put (pmem m) (uaddr (pmem m) root va) (take n bs)\<rparr>"
  shows "i < n \<Longrightarrow> pmem m1 (uaddr (pmem m) root (va + of_nat i)) = bs ! i"
    and "(\<And>i. i < n \<Longrightarrow> x \<noteq> uaddr (pmem m) root (va + of_nat i)) \<Longrightarrow> pmem m1 x = pmem m x"
    and "pte (pmem m1) root = pte (pmem m) root" and "tables (pmem m1) root = tables (pmem m) root"
    and "pt_ok m1 root"
proof -
  let ?u = "uaddr (pmem m) root"
  have nl: "n \<le> length bs" "n \<le> 4096 - unat va mod 4096" by (simp_all add: n chunk_eq)
  have va: "unat va + length bs \<le> 0x4000000000" using r by (simp add: urange_def)
  then have small: "length (take n bs) < 2 ^ 64" using nl by simp
  have step: "?u (va + of_nat i) = ?u va + of_nat i" if "i < n" for i
    using that nl va by (intro uaddr_step) auto
  have un: "unat (of_nat i :: u64) = i" if "i < n" for i using that nl by (intro unat_of_nat_small) simp
  show "i < n \<Longrightarrow> pmem m1 (?u (va + of_nat i)) = bs ! i" for i
    using nl by (simp add: m1_def put_eq [OF small] step within_def un)
  show out: "pmem m1 x = pmem m x" if "\<And>i. i < n \<Longrightarrow> x \<noteq> ?u (va + of_nat i)" for x
  proof -
    have "\<not> within x (?u va) n"
    proof
      assume "within x (?u va) n"
      then have "unat (x - ?u va) < n" by (simp add: within_def)
      from that [OF this] step [OF this] show False by simp
    qed
    then show ?thesis using nl by (simp add: m1_def put_eq [OF small] min_def)
  qed
  have same: "pmem m1 x = pmem m x" if "t \<in> tables (pmem m) root" "within x t 4096" for t x
    using r that nl by (intro out) (auto simp: urange_def)
  show "pte (pmem m1) root = pte (pmem m) root" "tables (pmem m1) root = tables (pmem m) root"
    using tab_frame_bytes [OF same] by simp_all
  show "pt_ok m1 root" using pt_ok_frame [OF same _ ok] by (simp add: m1_def)
qed

lemma copyout_bytes:
  "pt_ok m root \<Longrightarrow> urange (pmem m) root va (length bs) \<Longrightarrow>
   \<exists>w'. copyout h root va bs m = Ok (0, m\<lparr>pmem := w'\<rparr>) \<and> pte w' root = pte (pmem m) root \<and>
     tables w' root = tables (pmem m) root \<and> pt_ok (m\<lparr>pmem := w'\<rparr>) root \<and>
     (\<forall>i < length bs. w' (uaddr (pmem m) root (va + of_nat i)) = bs ! i) \<and>
     (\<forall>x. (\<forall>i < length bs. x \<noteq> uaddr (pmem m) root (va + of_nat i)) \<longrightarrow> w' x = pmem m x)"
proof (induction h root va bs m rule: copyout.induct)
  case (1 h root va bs m)
  show ?case
  proof (cases "bs = []")
    case True
    then show ?thesis using 1(2) by (subst copyout.simps) (auto intro!: exI [of _ "pmem m"])
  next
    case False
    let ?u = "uaddr (pmem m) root" and ?va0 = "PGROUNDDOWN va"
    define n where "n = chunk va (length bs)"
    define m1 where "m1 = m\<lparr>pmem := put (pmem m) (?u va) (take n bs)\<rparr>"
    note pc = put_chunk [OF 1(3) False 1(2) n_def, folded m1_def]
    have nl: "n \<le> length bs" "0 < n" using chunk_pos [of "length bs" va] False by (auto simp: n_def chunk_def)
    have va: "unat va + length bs \<le> 0x4000000000" using 1(3) by (simp add: urange_def)
    have pos: "0 < length bs" using False by simp
    note pa = urange_walkaddr(1) [OF 1(2,3) pos, of h] urange_walkaddr(2) [OF 1(2,3) pos]
    have run: "copyout h root va bs m = copyout h root (?va0 + PGSIZE) (drop n bs) m1"
      using False pa by (subst copyout.simps) (simp add: Let_def n_def m1_def uaddr_def)
    show ?thesis
    proof (cases "n = length bs")
      case True
      then have "copyout h root va bs m = Ok (0, m\<lparr>pmem := pmem m1\<rparr>)"
        using run by (simp add: copyout.simps m1_def)
      then show ?thesis using pc True by (intro exI [of _ "pmem m1"]) (auto simp: m1_def)
    next
      case F: False
      have next_va: "?va0 + PGSIZE = va + of_nat n" using next_chunk [OF va n_def F] .
      have m1_eq: "m1 = m\<lparr>pmem := put (pmem m) (PTE2PA (pte (pmem m) root va) + (va - ?va0)) (take n bs)\<rparr>"
        by (simp add: m1_def uaddr_def)
      define d where "d = length bs - n"
      have len: "length bs = n + d" "length (drop n bs) = d" using nl by (simp_all add: d_def)
      have r1: "urange (pmem m1) root (?va0 + PGSIZE) d" and u1: "uaddr (pmem m1) root = ?u"
        using urange_frame [OF urange_drop [OF 1(3) [unfolded len(1)]] pc(3,4)] by (simp_all add: next_va)
      have IH: "\<exists>w'. copyout h root (?va0 + PGSIZE) (drop n bs) m1 = Ok (0, m1\<lparr>pmem := w'\<rparr>) \<and>
          pte w' root = pte (pmem m1) root \<and> tables w' root = tables (pmem m1) root \<and>
          pt_ok (m1\<lparr>pmem := w'\<rparr>) root \<and>
          (\<forall>i < length (drop n bs). w' (uaddr (pmem m1) root (?va0 + PGSIZE + of_nat i)) = drop n bs ! i) \<and>
          (\<forall>x. (\<forall>i < length (drop n bs). x \<noteq> uaddr (pmem m1) root (?va0 + PGSIZE + of_nat i)) \<longrightarrow>
             w' x = pmem m1 x)"
        using "1.IH" [OF False refl pa n_def, folded m1_eq] pc(5) r1 unfolding len(2) by blast
      have eq: "?va0 + PGSIZE + of_nat j = va + of_nat (n + j)" for j by (simp add: next_va algebra_simps)
      obtain w' where w: "copyout h root (?va0 + PGSIZE) (drop n bs) m1 = Ok (0, m1\<lparr>pmem := w'\<rparr>)"
        "pte w' root = pte (pmem m) root" "tables w' root = tables (pmem m) root" "pt_ok (m1\<lparr>pmem := w'\<rparr>) root"
        "\<And>j. j < d \<Longrightarrow> w' (?u (va + of_nat (n + j))) = bs ! (n + j)"
        "\<And>x. (\<And>j. j < d \<Longrightarrow> x \<noteq> ?u (va + of_nat (n + j))) \<Longrightarrow> w' x = pmem m1 x"
        using IH nl unfolding eq u1 pc(3,4) len(2) by auto
      have inj: "inj_on (\<lambda>i. ?u (va + of_nat i)) {..<length bs}" using 1(3) by (simp add: urange_def)
      have "w' (?u (va + of_nat i)) = bs ! i" if "i < length bs" for i
      proof (cases "i < n")
        case True
        have "?u (va + of_nat i) \<noteq> ?u (va + of_nat (n + j))" if "j < d" for j
          using inj_onD [OF inj, of i "n + j"] True that len by auto
        then show ?thesis using w(6) pc(1) [OF True] by simp
      next
        case False
        then show ?thesis using w(5) [of "i - n"] that len by simp
      qed
      moreover have "w' x = pmem m x" if "\<And>i. i < length bs \<Longrightarrow> x \<noteq> ?u (va + of_nat i)" for x
        using that len pc(2) [of x] w(6) [of x] by (simp del: of_nat_add)
      ultimately show ?thesis using run w(1-4) by (intro exI [of _ w']) (auto simp: m1_def)
    qed
  qed
qed

section \<open>copyin\<close>

lemma get_chunk:
  assumes r: "urange w root va len" and n: "n = chunk va len"
  shows "get w (uaddr w root va) n = map (\<lambda>i. w (uaddr w root (va + of_nat i))) [0..<n]"
proof -
  have nl: "n \<le> len" "n \<le> 4096 - unat va mod 4096" by (simp_all add: n chunk_eq)
  have "unat va + len \<le> 0x4000000000" using r by (simp add: urange_def)
  then have "uaddr w root (va + of_nat i) = uaddr w root va + of_nat i" if "i < n" for i
    using that nl by (intro uaddr_step) auto
  then show ?thesis by (simp add: get_def)
qed

lemma copyin_bytes:
  "pt_ok m root \<Longrightarrow> urange (pmem m) root va len \<Longrightarrow>
   copyin h root va len m = Ok (0, map (\<lambda>i. pmem m (uaddr (pmem m) root (va + of_nat i))) [0..<len])"
proof (induction h root va len m rule: copyin.induct)
  case (1 h root va len m)
  show ?case
  proof (cases "len = 0")
    case True
    then show ?thesis by (simp add: copyin.simps)
  next
    case False
    let ?b = "\<lambda>i. pmem m (uaddr (pmem m) root (va + of_nat i))"
    define n where "n = chunk va len"
    have nl: "n \<le> len" by (simp add: n_def chunk_def)
    have pos: "0 < len" using False by simp
    note pa = urange_walkaddr(1) [OF 1(2,3) pos, of h] urange_walkaddr(2) [OF 1(2,3) pos]
    note IH = "1.IH" [OF pos refl pa n_def 1(2)]
    have "copyin h root (PGROUNDDOWN va + PGSIZE) (len - n) m = Ok (0, map ?b [n..<len])"
    proof (cases "n = len")
      case True
      then show ?thesis by (simp add: copyin.simps)
    next
      case F: False
      have va: "unat va + len \<le> 0x4000000000" using 1(3) by (simp add: urange_def)
      have eq: "PGROUNDDOWN va + PGSIZE = va + of_nat n" using next_chunk [OF va n_def F] .
      have "urange (pmem m) root (PGROUNDDOWN va + PGSIZE) (len - n)"
        using urange_drop [of "pmem m" root va n "len - n"] 1(3) nl by (simp add: eq)
      moreover have "[n..<len] = map (\<lambda>i. i + n) [0..<len - n]" using nl by (simp add: map_add_upt)
      ultimately show ?thesis using IH by (simp add: eq o_def algebra_simps)
    qed
    moreover have "copyin h root va len m =
        kbind (copyin h root (PGROUNDDOWN va + PGSIZE) (len - n) m) (\<lambda>(r, bs).
          Ok (r, get (pmem m) (uaddr (pmem m) root va) n @ bs))"
      using False pa by (subst copyin.simps) (simp add: Let_def n_def uaddr_def)
    moreover have "map ?b [0..<n] @ map ?b [n..<len] = map ?b [0..<len]"
      using nl upt_add_eq_append [of 0 n "len - n"] by (simp add: map_append [symmetric] del: map_append)
    ultimately show ?thesis using get_chunk [OF 1(3) n_def] by simp
  qed
qed

lemma one_page_uaddr: "vpn va = 0 \<Longrightarrow> uaddr (pmem one_page) 0x80022000 va = 0x80025000 + (va - PGROUNDDOWN va)"
  using PTE2PA_PA2PTE(1) [of "0x80025000" "0x1F"] by (simp add: uaddr_def one_page_pte)

lemma one_page_urange: "n \<le> 4096 \<Longrightarrow> urange (pmem one_page) 0x80022000 0 n"
proof -
  assume n: "n \<le> 4096"
  have i: "vpn (of_nat i) = 0" "PGROUNDDOWN (of_nat i) = 0" "unat (of_nat i :: u64) = i"
    "(of_nat i :: u64) < MAXVA" if "i < n" for i
  proof -
    show u: "unat (of_nat i :: u64) = i" using that n by (intro unat_of_nat_small) simp
    show "vpn (of_nat i) = 0" using that n by (simp add: vpn_def u)
    show "PGROUNDDOWN (of_nat i) = 0" using that n by (simp add: word_unat_eq_iff unat_PGROUNDDOWN u)
    show "(of_nat i :: u64) < MAXVA" using that n by (simp add: word_less_nat_alt u)
  qed
  have a: "uaddr (pmem one_page) 0x80022000 (of_nat i) = 0x80025000 + of_nat i" if "i < n" for i
    using i [OF that] by (simp add: one_page_uaddr)
  have "uok (pmem one_page) 0x80022000 (of_nat i)" if "i < n" for i
  proof -
    have "(PA2PTE 0x80025000 OR 0x1F) AND PTE_V \<noteq> 0" "(PA2PTE 0x80025000 OR 0x1F) AND 16 \<noteq> 0"
      by (simp_all add: PA2PTE_def)
    then show ?thesis using i [OF that] PTE2PA_PA2PTE(1) [of "0x80025000" "0x1F"]
      by (simp add: uok_def one_page_pte)
  qed
  moreover have "\<not> within (0x80025000 + of_nat i) t 4096" if "i < n" "t \<in> tables (pmem one_page) 0x80022000" for i t
  proof -
    have "within (0x80025000 + of_nat i) 0x80025000 4096" using i(3) [OF that(1)] that(1) n by (simp add: within_def)
    moreover have "t mod PGSIZE = 0" "t \<noteq> 0x80025000" using that(2) by (auto simp: one_page_tables)
    ultimately show ?thesis using same_page [of _ t "0x80025000"] by auto
  qed
  moreover have "inj_on (\<lambda>i. uaddr (pmem one_page) 0x80022000 (of_nat i)) {..<n}"
  proof (rule inj_onI)
    fix j k assume "j \<in> {..<n}" "k \<in> {..<n}"
      "uaddr (pmem one_page) 0x80022000 (of_nat j) = uaddr (pmem one_page) 0x80022000 (of_nat k)"
    then have "(of_nat j :: u64) = of_nat k" using a by simp
    then show "j = k" using i(3) \<open>j \<in> {..<n}\<close> \<open>k \<in> {..<n}\<close> by (metis lessThan_iff)
  qed
  ultimately show ?thesis using n a by (simp add: urange_def)
qed

section \<open>The round trip\<close>

text \<open>
  C7. What copyout writes to user space, copyin reads back: for a range of user bytes that is mapped
  for the user, copyout returns 0, a copyin of the same range then returns 0 with the bytes that
  were written, no page-table entry changes, and no byte of memory changes but the bytes the
  range is mapped to.
\<close>

theorem copyout_copyin_roundtrip:
  assumes "pt_ok m root" and "urange (pmem m) root va (length bs)"
  shows "\<exists>m'. copyout h root va bs m = Ok (0, m') \<and> copyin h root va (length bs) m' = Ok (0, bs) \<and>
    pte (pmem m') root = pte (pmem m) root \<and>
    (\<forall>x. (\<forall>i < length bs. x \<noteq> uaddr (pmem m) root (va + of_nat i)) \<longrightarrow> pmem m' x = pmem m x)"
proof -
  from copyout_bytes [OF assms] obtain w' where w: "copyout h root va bs m = Ok (0, m\<lparr>pmem := w'\<rparr>)"
    "pte w' root = pte (pmem m) root" "tables w' root = tables (pmem m) root" "pt_ok (m\<lparr>pmem := w'\<rparr>) root"
    "\<forall>i < length bs. w' (uaddr (pmem m) root (va + of_nat i)) = bs ! i"
    "\<forall>x. (\<forall>i < length bs. x \<noteq> uaddr (pmem m) root (va + of_nat i)) \<longrightarrow> w' x = pmem m x" by blast
  note fr = urange_frame [OF assms(2) w(2,3)]
  have "map (\<lambda>i. w' (uaddr w' root (va + of_nat i))) [0..<length bs] = bs"
    using w(5) fr(2) by (intro nth_equalityI) simp_all
  then have "copyin h root va (length bs) (m\<lparr>pmem := w'\<rparr>) = Ok (0, bs)"
    using copyin_bytes [OF w(4), of va "length bs" h] fr(1) by simp
  then show ?thesis using w by (intro exI [of _ "m\<lparr>pmem := w'\<rparr>"]) simp
qed

theorem copyout_copyin_roundtrip_witness:
  "\<exists>m'. copyout 0 0x80022000 0 [104, 105] one_page = Ok (0, m') \<and>
    copyin 0 0x80022000 0 (Suc (Suc 0)) m' = Ok (0, [104, 105])"
  using copyout_copyin_roundtrip [OF one_page_ok, of 0 "[104, 105]" 0] one_page_urange [of "Suc (Suc 0)"] by auto

end
