(* ===== verification/Ufree.thy ===== *)
theory Ufree
  imports Uspace
begin

text \<open>
  \<open>freewalk\<close> and \<open>uvmfree\<close> of vm.c.  \<open>ptree l w t S\<close> says that the table \<open>t\<close> of level \<open>l\<close> is the root of a
  tree of tables without a leaf entry, and that \<open>S\<close> are its pages, each used once.  On such a tree
  \<open>freewalk\<close> returns, and the free list gains the pages of the tree.
\<close>

unbundle bit_operations_syntax

abbreviation entry :: "mem \<Rightarrow> u64 \<Rightarrow> nat \<Rightarrow> u64" where
  "entry w t i \<equiv> ld64 w (t + 8 * of_nat i)"

primrec ptree :: "nat \<Rightarrow> mem \<Rightarrow> u64 \<Rightarrow> u64 set \<Rightarrow> bool" where
  "ptree 0 w t S = (S = {t} \<and> (\<forall>i < 512. entry w t i AND PTE_V = 0))"
| "ptree (Suc l) w t S =
    (\<exists>f. S = insert t (\<Union>i < 512. f i) \<and> (\<forall>i < 512. t \<notin> f i) \<and>
      (\<forall>i < 512. \<forall>j < 512. i \<noteq> j \<longrightarrow> f i \<inter> f j = {}) \<and>
      (\<forall>i < 512. if entry w t i AND PTE_V = 0 then f i = {}
        else PTE_FLAGS (entry w t i) = PTE_V \<and> ptree l w (PTE2PA (entry w t i)) (f i)))"

lemma ptree_root: "ptree l w t S \<Longrightarrow> t \<in> S"
  by (cases l) auto

lemma of_nat_512: "i < 512 \<Longrightarrow> unat (of_nat i :: u64) = i"
  by (rule unat_of_nat_small) simp

lemma ptree_cong:
  "ptree l w t S \<Longrightarrow> (\<And>p x. p \<in> S \<Longrightarrow> within x p 4096 \<Longrightarrow> w' x = w x) \<Longrightarrow> ptree l w' t S"
proof (induction l arbitrary: t S)
  case 0
  then have "entry w' t i = entry w t i" if "i < 512" for i
    using that by (intro ld64_cong_entry) (auto simp: of_nat_512)
  then show ?case using 0 by simp
next
  case (Suc l)
  from Suc.prems(1) obtain f where f: "S = insert t (\<Union>i < 512. f i)" "\<forall>i < 512. t \<notin> f i"
    "\<forall>i < 512. \<forall>j < 512. i \<noteq> j \<longrightarrow> f i \<inter> f j = {}"
    "\<forall>i < 512. if entry w t i AND PTE_V = 0 then f i = {}
        else PTE_FLAGS (entry w t i) = PTE_V \<and> ptree l w (PTE2PA (entry w t i)) (f i)" by auto
  have e: "entry w' t i = entry w t i" if "i < 512" for i
    using that Suc.prems(2) f(1) by (intro ld64_cong_entry) (auto simp: of_nat_512)
  have "ptree l w' (PTE2PA (entry w t i)) (f i)" if "i < 512" "ptree l w (PTE2PA (entry w t i)) (f i)" for i
    using Suc.IH [OF that(2)] Suc.prems(2) f(1) that(1) by blast
  then show ?case using f by (auto intro!: exI [of _ f] simp: e)
qed

text \<open>Entry \<open>i\<close> of \<open>t\<close> is empty, or leads to a tree with the pages \<open>S\<close>.\<close>

definition slot :: "nat \<Rightarrow> mem \<Rightarrow> u64 \<Rightarrow> nat \<Rightarrow> u64 set \<Rightarrow> bool" where
  "slot l w t i S =
    (if entry w t i AND PTE_V = 0 then S = {}
     else PTE_FLAGS (entry w t i) = PTE_V \<and> ptree l w (PTE2PA (entry w t i)) S)"

lemma ptree_SucI:
  assumes "\<And>i. i < 512 \<Longrightarrow> t \<notin> f i" and "\<And>i j. i < 512 \<Longrightarrow> j < 512 \<Longrightarrow> i \<noteq> j \<Longrightarrow> f i \<inter> f j = {}"
    and "\<And>i. i < 512 \<Longrightarrow> slot l w t i (f i)"
  shows "ptree (Suc l) w t (insert t (\<Union>i < 512. f i))"
  unfolding ptree.simps using assms by (intro exI [of _ f] conjI refl allI impI) (simp_all add: slot_def)

lemma flags_dir: "PTE_FLAGS e = PTE_V \<Longrightarrow> e AND ucast (PTE_R OR PTE_W OR PTE_X) = 0"
proof -
  assume "PTE_FLAGS e = PTE_V"
  then have "(e AND 0x3FF) AND 14 = 1 AND (14 :: u64)" by (simp add: PTE_FLAGS_def)
  then show ?thesis by (simp add: and.assoc)
qed

text \<open>What \<open>freewalk\<close> does to a tree with the pages \<open>S\<close>.\<close>

definition frees :: "nat \<Rightarrow> machine \<Rightarrow> u64 list \<Rightarrow> u64 set \<Rightarrow> machine res \<Rightarrow> bool" where
  "frees h m ps S r = (\<exists>m' ps'. r = Ok m' \<and> kalloc_inv h m' ps' \<and> mem_only h m m' \<and>
    set ps' = set ps \<union> S \<and> bytes_off S (pmem m) (pmem m'))"

lemma freewalk_loop_frees:
  assumes rec: "\<And>t S m ps. ptree l (pmem m) t S \<Longrightarrow> kalloc_inv h m ps \<Longrightarrow> \<forall>p \<in> S. page_ok m p \<Longrightarrow>
      S \<inter> set ps = {} \<Longrightarrow> frees h m ps S (rec t m)"
  shows "distinct is \<Longrightarrow> set is \<subseteq> {..<512} \<Longrightarrow> kalloc_inv h m ps \<Longrightarrow> page_ok m t \<Longrightarrow> t \<notin> set ps \<Longrightarrow>
    (\<And>i p. i \<in> set is \<Longrightarrow> p \<in> f i \<Longrightarrow> page_ok m p \<and> p \<noteq> t \<and> p \<notin> set ps) \<Longrightarrow>
    (\<And>i j. i \<in> set is \<Longrightarrow> j \<in> set is \<Longrightarrow> i \<noteq> j \<Longrightarrow> f i \<inter> f j = {}) \<Longrightarrow>
    (\<And>i. i \<in> set is \<Longrightarrow> slot l (pmem m) t i (f i)) \<Longrightarrow>
    \<exists>m' ps'. freewalk_loop rec t is m = Ok m' \<and> kalloc_inv h m' ps' \<and> mem_only h m m' \<and>
      set ps' = set ps \<union> (\<Union>i \<in> set is. f i) \<and> bytes_off (insert t (\<Union>i \<in> set is. f i)) (pmem m) (pmem m')"
proof (induction "is" arbitrary: m ps)
  case Nil
  then show ?case by (intro exI [of _ m] exI [of _ ps]) simp
next
  case (Cons i "is")
  let ?e = "entry (pmem m) t i"
  have i: "i < 512" and dist: "i \<notin> set is" using Cons.prems(1,2) by auto
  have t: "t mod PGSIZE = 0" using Cons.prems(4) by (rule page_okD)
  show ?case
  proof (cases "?e AND PTE_V = 0")
    case True
    then have "f i = {}" using Cons.prems(8) [of i] by (simp add: slot_def)
    moreover have "\<exists>m' ps'. freewalk_loop rec t is m = Ok m' \<and> kalloc_inv h m' ps' \<and> mem_only h m m' \<and>
        set ps' = set ps \<union> (\<Union>i \<in> set is. f i) \<and> bytes_off (insert t (\<Union>i \<in> set is. f i)) (pmem m) (pmem m')"
      by (rule Cons.IH [OF _ _ Cons.prems(3-5)])
        (use Cons.prems(1,2) in simp_all, (rule Cons.prems(6-8); simp)+)
    ultimately show ?thesis using True by simp
  next
    case False
    then have e: "PTE_FLAGS ?e = PTE_V" "ptree l (pmem m) (PTE2PA ?e) (f i)" using Cons.prems(8) [of i] by (simp_all add: slot_def)
    have fi: "\<forall>p \<in> f i. page_ok m p" "f i \<inter> set ps = {}" "t \<notin> f i" using Cons.prems(6) [of i] by auto
    obtain m1 ps1 where r: "rec (PTE2PA ?e) m = Ok m1" "kalloc_inv h m1 ps1" "mem_only h m m1"
      "set ps1 = set ps \<union> f i" "bytes_off (f i) (pmem m) (pmem m1)"
      using rec [OF e(2) Cons.prems(3) fi(1,2)] by (auto simp: frees_def)
    define m2 where "m2 = m1\<lparr>pmem := st64 (pmem m1) (t + 8 * of_nat i) 0\<rparr>"
    have page: "pmem m2 x = pmem m1 x" if "page_ok m p" "p \<noteq> t" "within x p 4096" for p x
      using within_st64_entry [OF t page_okD(1) [OF that(1)] that(2) _ that(3)] i by (simp add: m2_def of_nat_512)
    have old: "pmem m1 x = pmem m x" if "page_ok m p" "p \<notin> f i" "within x p 4096" for p x
      using fi(1) by (intro bytes_off_page [OF r(5) _ page_okD(1) [OF that(1)] that(2,3)]) (auto intro: page_okD)
    have only: "mem_only h m m2" using r(3) mem_only_intros(2) mem_only_trans unfolding m2_def by blast
    have off: "bytes_off (insert t (f i)) (pmem m) (pmem m2)"
    proof -
      have "bytes_off {t} (pmem m1) (pmem m2)"
        unfolding bytes_off_def m2_def using within_entry(2) [of _ t "of_nat i"] i
        by (auto simp: of_nat_512 intro!: st_outside)
      from bytes_off_trans [OF r(5) this] show ?thesis by simp
    qed
    have k2: "kalloc_inv h m2 ps1"
    proof (rule kalloc_inv_frame [OF r(2)])
      fix p x assume p: "p \<in> set ps1" "within x p 4096"
      then have "page_ok m p" "p \<noteq> t"
        using Cons.prems(3,5) fi r(4) by (auto simp: kalloc_inv_def kmem_inv_def)
      then show "pmem m2 x = pmem m1 x" using page p(2) by blast
    qed (simp_all add: m2_def)
    have f': "p \<in> f j \<Longrightarrow> page_ok m p \<and> p \<noteq> t \<and> p \<notin> f i \<and> p \<notin> set ps" if "j \<in> set is" for j p
      using Cons.prems(6) [of j p] Cons.prems(7) [of i j] that dist by auto
    have ent: "entry (pmem m2) t j = entry (pmem m) t j" if "j \<in> set is" for j
    proof -
      have "j < 512" "j \<noteq> i" using that Cons.prems(2) dist by auto
      then have "(of_nat j :: u64) \<noteq> of_nat i" using i of_nat_512 by metis
      then have "entry (pmem m2) t j = entry (pmem m1) t j" using \<open>j < 512\<close> i t
        unfolding m2_def by (simp add: ld64_st64_other_entry of_nat_512)
      also have "\<dots> = entry (pmem m) t j"
        using old [OF Cons.prems(4) fi(3)] \<open>j < 512\<close> by (intro ld64_cong_entry) (simp_all add: of_nat_512)
      finally show ?thesis .
    qed
    have sub: "ptree l (pmem m2) q (f j)" if "j \<in> set is" "ptree l (pmem m) q (f j)" for j q
      using f' [OF that(1)] page old by (intro ptree_cong [OF that(2)]) metis
    have "\<exists>m' ps'. freewalk_loop rec t is m2 = Ok m' \<and> kalloc_inv h m' ps' \<and> mem_only h m2 m' \<and>
        set ps' = set ps1 \<union> (\<Union>i \<in> set is. f i) \<and> bytes_off (insert t (\<Union>i \<in> set is. f i)) (pmem m2) (pmem m')"
    proof (rule Cons.IH [OF _ _ k2])
      show "distinct is" "set is \<subseteq> {..<512}" using Cons.prems(1,2) by auto
      show "page_ok m2 t" "t \<notin> set ps1" using Cons.prems(4,5) mem_onlyD(5) [OF only] r(4) fi(3) by auto
      show "page_ok m2 p \<and> p \<noteq> t \<and> p \<notin> set ps1" if "j \<in> set is" "p \<in> f j" for j p
        using f' [OF that] mem_onlyD(5) [OF only] r(4) by auto
      show "f j \<inter> f k = {}" if "j \<in> set is" "k \<in> set is" "j \<noteq> k" for j k
        using Cons.prems(7) [of j k] that by simp
      show "slot l (pmem m2) t j (f j)" if "j \<in> set is" for j
        using Cons.prems(8) [of j] that sub [OF that] unfolding slot_def ent [OF that] by (simp split: if_splits)
    qed
    then obtain m' ps' where r': "freewalk_loop rec t is m2 = Ok m'" "kalloc_inv h m' ps'" "mem_only h m2 m'"
      "set ps' = set ps1 \<union> (\<Union>i \<in> set is. f i)" "bytes_off (insert t (\<Union>i \<in> set is. f i)) (pmem m2) (pmem m')"
      by blast
    have "freewalk_loop rec t (i # is) m = Ok m'"
      using False flags_dir [OF e(1)] r(1) r'(1) by (simp add: m2_def)
    moreover have "bytes_off (insert t (\<Union>i \<in> set (i # is). f i)) (pmem m) (pmem m')"
      using bytes_off_trans [OF off r'(5)] by (rule bytes_off_mono) auto
    ultimately show ?thesis using r' r(4) mem_only_trans [OF only r'(3)] by (intro exI [of _ m'] exI [of _ ps']) auto
  qed
qed

lemma freewalk_loop_leaf:
  "(\<And>i. i \<in> set is \<Longrightarrow> entry (pmem m) t i AND PTE_V = 0) \<Longrightarrow> freewalk_loop rec t is m = Ok m"
  by (induction "is") simp_all

lemma freewalk_frees:
  "ptree l (pmem m) t S \<Longrightarrow> kalloc_inv h m ps \<Longrightarrow> \<forall>p \<in> S. page_ok m p \<Longrightarrow> S \<inter> set ps = {} \<Longrightarrow>
   frees h m ps S (freewalk (Suc l) h t m)"
proof (induction l arbitrary: m t S ps)
  case 0
  then have "freewalk_loop (freewalk 0 h) t [0..<512] m = Ok m" by (intro freewalk_loop_leaf) simp
  moreover obtain m' where "kfree h t m = Ok m'" "kalloc_inv h m' (t # ps)" "mem_only h m m'"
    "bytes_off {t} (pmem m) (pmem m')" using kfree_gives [OF 0(2), of t] 0(1,3,4) by auto
  ultimately show ?case using 0(1) by (auto simp: frees_def intro!: exI [of _ "t # ps"])
next
  case (Suc l)
  from Suc.prems(1) obtain f where f: "S = insert t (\<Union>i < 512. f i)" "\<forall>i < 512. t \<notin> f i"
    "\<forall>i < 512. \<forall>j < 512. i \<noteq> j \<longrightarrow> f i \<inter> f j = {}" "\<forall>i < 512. slot l (pmem m) t i (f i)"
    by (auto simp: slot_def)
  have t: "page_ok m t" "t \<notin> set ps" using Suc.prems(3,4) f(1) by auto
  have "\<exists>m' ps'. freewalk_loop (freewalk (Suc l) h) t [0..<512] m = Ok m' \<and> kalloc_inv h m' ps' \<and> mem_only h m m' \<and>
      set ps' = set ps \<union> (\<Union>i \<in> set [0..<512]. f i) \<and>
      bytes_off (insert t (\<Union>i \<in> set [0..<512]. f i)) (pmem m) (pmem m')"
  proof (rule freewalk_loop_frees [OF Suc.IH _ _ Suc.prems(2) t])
    show "page_ok m p \<and> p \<noteq> t \<and> p \<notin> set ps" if "i \<in> set [0..<512]" "p \<in> f i" for i p
      using that f(1,2) Suc.prems(3,4) by auto
  qed (use f in auto)
  then obtain m1 ps1 where r: "freewalk_loop (freewalk (Suc l) h) t [0..<512] m = Ok m1" "kalloc_inv h m1 ps1"
    "mem_only h m m1" "set ps1 = set ps \<union> (\<Union>i < 512. f i)"
    "bytes_off S (pmem m) (pmem m1)" by (auto simp: f(1) atLeast0LessThan)
  have "page_ok m1 t" "t \<notin> set ps1" using t f(2) mem_onlyD(5) [OF r(3)] r(4) by auto
  from kfree_gives [OF r(2) this] obtain m2 where k: "kfree h t m1 = Ok m2" "kalloc_inv h m2 (t # ps1)"
    "mem_only h m1 m2" "bytes_off {t} (pmem m1) (pmem m2)" .
  have "bytes_off S (pmem m) (pmem m2)"
    using bytes_off_trans [OF r(5) k(4)] by (rule bytes_off_mono) (auto simp: f(1))
  then show ?case
    using r(1,4) k(1,2) mem_only_trans [OF r(3) k(3)] f(1)
    by (auto simp: frees_def intro!: exI [of _ "t # ps1"])
qed

section \<open>The tables of an address space form such a tree\<close>

text \<open>An address with the indices of \<open>va\<close> but index \<open>i\<close> at level \<open>l\<close>.\<close>

lemma PX_update:
  assumes "i < 512" and "l \<le> 2"
  obtains va' where "PX l va' = of_nat i" "\<And>k. k \<noteq> l \<Longrightarrow> PX k va' = PX k va"
proof -
  let ?s = "12 + 9 * l"
  define va' where "va' = (va AND NOT (push_bit ?s (mask 9))) OR push_bit ?s (of_nat i)"
  have bi: "bit (of_nat i :: u64) n \<Longrightarrow> n < 9" for n
  proof -
    have "take_bit 9 (of_nat i :: u64) = of_nat i"
      using assms(1) by (simp add: word_unat_eq_iff unsigned_take_bit_eq of_nat_512 take_bit_nat_eq_self)
    then show "bit (of_nat i :: u64) n \<Longrightarrow> n < 9" by (metis bit_take_bit_iff)
  qed
  have b: "bit va' n = (if ?s \<le> n \<and> n < ?s + 9 then bit (of_nat i :: u64) (n - ?s) else bit va n)" if "n < 64" for n
    using that bi [of "n - ?s"] by (auto simp: va'_def bit_simps)
  have "PX l va' = of_nat i"
  proof (rule bit_word_eqI)
    fix n assume "n < LENGTH(64)"
    then show "bit (PX l va') n = bit (of_nat i :: u64) n"
      using b [of "?s + n"] bi [of n] assms(2) by (auto simp: bit_PX)
  qed
  moreover have "PX k va' = PX k va" if "k \<noteq> l" for k
  proof (rule bit_word_eqI)
    fix n assume "n < LENGTH(64)"
    have "\<not> (?s \<le> 12 + 9 * k + n \<and> 12 + 9 * k + n < ?s + 9)" if "n < 9"
      using that \<open>k \<noteq> l\<close> by auto
    then show "bit (PX k va') n = bit (PX k va) n"
      using b [of "12 + 9 * k + n"] bit_imp_le_length [of va' "12 + 9 * k + n"]
        bit_imp_le_length [of va "12 + 9 * k + n"] by (auto simp: bit_PX)
  qed
  ultimately show ?thesis using that by blast
qed

definition below :: "mem \<Rightarrow> u64 \<Rightarrow> nat \<Rightarrow> u64 \<Rightarrow> u64 set" where
  "below w root n va = {q. \<exists>va' k. n \<le> k \<and> k \<le> 2 \<and> same_upto n va va' \<and> tab w root va' k = Some q}"

lemma belowI: "tab w root va' k = Some q \<Longrightarrow> same_upto n va va' \<Longrightarrow> n \<le> k \<Longrightarrow> k \<le> 2 \<Longrightarrow> q \<in> below w root n va"
  unfolding below_def by blast

lemma below_root: "below w root 0 va = tables w root"
  by (simp add: below_def tables_def same_upto_def)

lemma same_upto_trans: "same_upto n a b \<Longrightarrow> same_upto n a c \<Longrightarrow> same_upto n b c"
  by (simp add: same_upto_def)

lemma below_unique:
  assumes ok: "pt_ok m root" and "q \<in> below (pmem m) root n va" and "q \<in> below (pmem m) root n va'"
  shows "same_upto n va va'"
proof -
  obtain a k b j where q: "n \<le> k" "k \<le> 2" "same_upto n va a" "tab (pmem m) root a k = Some q"
    "j \<le> 2" "same_upto n va' b" "tab (pmem m) root b j = Some q"
    using assms(2,3) by (auto simp: below_def)
  then have "same_upto k a b" using pt_okD(4) [OF ok q(4,2) q(7,5)] by simp
  then have "same_upto n a b" using q(1) by (auto simp: same_upto_def)
  then show ?thesis using q(3,6) by (simp add: same_upto_def)
qed

lemma below_split:
  assumes "tab w root va n = Some t" and "n < 2"
  shows "below w root n va = insert t (\<Union>i < 512. \<Union>a \<in> {a. same_upto n va a \<and> PX (2 - n) a = of_nat i}.
    below w root (Suc n) a)" (is "_ = insert t (\<Union>i < 512. ?f i)")
proof (intro equalityI subsetI)
  fix q assume "q \<in> below w root n va"
  then obtain a k where q: "n \<le> k" "k \<le> 2" "same_upto n va a" "tab w root a k = Some q"
    by (auto simp: below_def)
  show "q \<in> insert t (\<Union>i < 512. ?f i)"
  proof (cases "k = n")
    case True
    then show ?thesis using q assms(1) tab_same [OF q(3), of w root] by simp
  next
    case False
    then have "q \<in> below w root (Suc n) a" using q by (intro belowI [OF q(4)]) simp_all
    moreover have "of_nat (unat (PX (2 - n) a)) = PX (2 - n) a" by simp
    ultimately show ?thesis using q(3) PX_less [of "2 - n" a] by (auto intro!: bexI [of _ "unat (PX (2 - n) a)"])
  qed
next
  fix q assume "q \<in> insert t (\<Union>i < 512. ?f i)"
  then consider "q = t" | a b k where "same_upto n va a" "Suc n \<le> k" "k \<le> 2" "same_upto (Suc n) a b"
    "tab w root b k = Some q" by (auto simp: below_def)
  then show "q \<in> below w root n va"
  proof cases
    case 1
    then show ?thesis using assms by (auto intro: belowI)
  next
    case 2
    then have "same_upto n va b" by (auto simp: same_upto_def)
    then show ?thesis using 2 by (auto intro: belowI)
  qed
qed

lemma tables_ptree:
  assumes ok: "pt_ok m root" and none: "\<And>va. pte (pmem m) root va AND PTE_V = 0"
  shows "n + l = 2 \<Longrightarrow> tab (pmem m) root va n = Some t \<Longrightarrow> ptree l (pmem m) t (below (pmem m) root n va)"
proof (induction l arbitrary: n va t)
  case 0
  have "entry (pmem m) t i AND PTE_V = 0" if i: "i < 512" for i
  proof -
    obtain va' where "PX 0 va' = of_nat i" "\<And>k. k \<noteq> 0 \<Longrightarrow> PX k va' = PX k va" using PX_update [OF i] by blast
    then have "same_upto 2 va va'" "PX 0 va' = of_nat i" by (auto simp: same_upto_def)
    then show ?thesis using none [of va'] 0 tab_same [of 2 va va' "pmem m" root] by (simp add: pte_def)
  qed
  moreover have "below (pmem m) root 2 va = {t}"
  proof (intro equalityI subsetI)
    fix q assume "q \<in> below (pmem m) root 2 va"
    then obtain va' where "same_upto 2 va va'" "tab (pmem m) root va' 2 = Some q" by (auto simp: below_def)
    then show "q \<in> {t}" using 0 tab_same [of 2 va va' "pmem m" root] by simp
  qed (use 0 in \<open>auto intro: belowI\<close>)
  ultimately show ?case using 0 by simp
next
  case (Suc l)
  let ?w = "pmem m" and ?P = "\<lambda>i a. same_upto n va a \<and> PX (2 - n) a = of_nat i"
  let ?f = "\<lambda>i. \<Union>a \<in> {a. ?P i a}. below ?w root (Suc n) a"
  have n: "n < 2" "Suc n + l = 2" using Suc.prems(1) by simp_all
  have f: "\<exists>a. ?P i a \<and> ?f i = below ?w root (Suc n) a" if i: "i < 512" for i
  proof -
    obtain a where "PX (2 - n) a = of_nat i" "\<And>k. k \<noteq> 2 - n \<Longrightarrow> PX k a = PX k va"
      using PX_update [OF i, of "2 - n"] by auto
    moreover have "2 - j \<noteq> 2 - n" if "j < n" for j using that n(1) by arith
    ultimately have a: "?P i a" by (simp add: same_upto_def)
    have "below ?w root (Suc n) b = below ?w root (Suc n) a" if "?P i b" for b
    proof -
      have "same_upto (Suc n) a b" 
        unfolding same_upto_Suc using that a same_upto_trans [of n va a b] by simp
      then have "same_upto (Suc n) a c = same_upto (Suc n) b c" for c by (auto simp: same_upto_def)
      then show ?thesis by (simp add: below_def)
    qed
    then show ?thesis using a by blast
  qed
  have own: "t \<notin> ?f i" for i
    using pt_okD(4) [OF ok Suc.prems(2)] n(1) by (fastforce simp: below_def)
  have disj: "?f i \<inter> ?f j = {}" if "i < 512" "j < 512" "i \<noteq> j" for i j
  proof (rule ccontr)
    assume "?f i \<inter> ?f j \<noteq> {}"
    then obtain q a b where "q \<in> below ?w root (Suc n) a" "?P i a" "q \<in> below ?w root (Suc n) b" "?P j b" by blast
    then have "(of_nat i :: u64) = of_nat j" using below_unique [OF ok, of q "Suc n" a b] by (simp add: same_upto_Suc)
    then show False using that of_nat_512 by metis
  qed
  have slots: "slot l ?w t i (?f i)" if i: "i < 512" for i
  proof -
    from f [OF i] obtain a where a: "?P i a" "?f i = below ?w root (Suc n) a" by blast
    have ta: "tab ?w root a n = Some t" using a(1) Suc.prems(2) tab_same [of n va a ?w root] by simp
    show ?thesis
    proof (cases "entry ?w t i AND PTE_V = 0")
      case True
      then have "tab ?w root a (Suc n) = None" using ta a(1) by simp
      then have "tab ?w root b k = None" if "same_upto (Suc n) a b" "Suc n \<le> k" for b k
        using tab_same [OF that(1), of ?w root] tab_None_mono [OF _ that(2), of ?w root b] by simp
      then have "below ?w root (Suc n) a = {}" by (auto simp: below_def)
      then show ?thesis using True a(2) by (simp add: slot_def)
    next
      case False
      then have "tab ?w root a (Suc n) = Some (PTE2PA (entry ?w t i))" using ta a(1) by simp
      from Suc.IH [OF n(2) this] have "ptree l ?w (PTE2PA (entry ?w t i)) (?f i)" using a(2) by simp
      moreover have "PTE_FLAGS (entry ?w t i) = PTE_V"
        using ok ta n(1) a(1) False unfolding pt_ok_def dirs_ok_def by (metis (no_types))
      ultimately show ?thesis using False by (simp add: slot_def)
    qed
  qed
  show ?case unfolding below_split [OF Suc.prems(2) n(1)]
    by (rule ptree_SucI [OF own disj slots])
qed

text \<open>
  C9. Tearing down an address space leaks nothing: when the pages below sz are mapped, each to a page
  of its own, and nothing else is, uvmfree returns (three levels of recursion are enough for
  freewalk), and the free list then holds what it held, every page that was mapped and every page
  of the page tables.
\<close>

theorem uvmfree_frees_all:
  assumes inv: "vm_inv h root m ps" and up: "user_pages m root ps 0 n"
    and n: "n = (unat sz + 4095) div 4096" "n \<le> NPAGES"
    and none: "\<forall>va. n \<le> vpn va \<longrightarrow> pte (pmem m) root va AND PTE_V = 0"
  shows "\<exists>m' ps'. uvmfree 3 h root sz m = Ok m' \<and> kalloc_inv h m' ps' \<and>
    set ps' = set ps \<union> upage (pmem m) root ` {0..<n} \<union> tables (pmem m) root"
proof -
  have npages: "PGROUNDUP sz div PGSIZE = of_nat n"
  proof -
    have "unat sz < 2 ^ 64 - 4095" using n by simp
    then have "unat (PGROUNDUP sz) = n * 4096" by (simp add: unat_PGROUNDUP n(1))
    then have "unat (PGROUNDUP sz div PGSIZE) = n" by (simp add: unat_div_distrib)
    moreover have "unat (of_nat n :: u64) = n" using n(2) by (intro unat_of_nat_small) simp
    ultimately show ?thesis by (simp add: word_unat_eq_iff)
  qed
  have "\<exists>m1 ps1. (if sz > 0 then uvmunmap h root 0 (PGROUNDUP sz div PGSIZE) True m else Ok m) = Ok m1 \<and>
      vm_inv h root m1 ps1 \<and> set ps1 = set ps \<union> upage (pmem m) root ` {0..<n} \<and>
      tables (pmem m1) root = tables (pmem m) root \<and> (\<forall>va. pte (pmem m1) root va AND PTE_V = 0)"
  proof (cases "sz > 0")
    case True
    have "uvmunmap h root 0 (of_nat n) True m = uvmunmap_loop h root (pg 0) (pg n) True m"
      by (simp add: uvmunmap_def)
    then show ?thesis using uvmunmap_loop_frees [OF inv up, of n] n(2) none True npages by auto
  next
    case False
    then have "sz = 0" by (simp add: word_gt_0)
    then have "n = 0" using n(1) by simp
    then show ?thesis using False inv none by auto
  qed
  then obtain m1 ps1 where r: "(if sz > 0 then uvmunmap h root 0 (PGROUNDUP sz div PGSIZE) True m else Ok m) = Ok m1"
    "vm_inv h root m1 ps1" "set ps1 = set ps \<union> upage (pmem m) root ` {0..<n}"
    "tables (pmem m1) root = tables (pmem m) root" "\<And>va. pte (pmem m1) root va AND PTE_V = 0" by blast
  have ok: "pt_ok m1 root" "kalloc_inv h m1 ps1" "tables (pmem m1) root \<inter> set ps1 = {}"
    "\<forall>p \<in> tables (pmem m1) root. page_ok m1 p"
    using r(2) by (auto simp: vm_inv_def pt_ok_def)
  have "ptree 2 (pmem m1) root (tables (pmem m1) root)"
    using tables_ptree [OF ok(1) r(5), of 0 2 0 root] by (simp add: below_root)
  from freewalk_frees [OF this ok(2,4,3)] show ?thesis
    using r(1,3,4) by (auto simp: uvmfree_def frees_def numeral_3_eq_3)
qed

theorem uvmfree_frees_all_witness:
  "\<exists>m' ps'. uvmfree 3 0 0x80022000 0x1000 one_page = Ok m' \<and> kalloc_inv 0 m' ps' \<and>
    set ps' = {0x80022000, 0x80023000, 0x80024000, 0x80025000}"
proof -
  have "upage (pmem one_page) 0x80022000 0 = 0x80025000"
    using PTE2PA_PA2PTE(1) [of "0x80025000" "0x1F"] by (simp add: upage_def one_page_pte vpn_def)
  moreover have "\<forall>va. 1 \<le> vpn va \<longrightarrow> pte (pmem one_page) 0x80022000 va AND PTE_V = 0"
    by (simp add: one_page_pte)
  ultimately show ?thesis
    using uvmfree_frees_all [OF one_page_inv one_page_pages, of "0x1000"] by (auto simp: one_page_tables insert_commute)
qed

end
