(* ===== verification/Kstate.thy ===== *)
theory Kstate
  imports Vm
begin

text \<open>
  The state of the kernel above the machine, and how kernel code that can give up the CPU is
  modelled.  The records follow the structs of kernel/proc.h, kernel/file.h, kernel/buf.h, kernel/fs.h,
  kernel/sleeplock.h, kernel/log.c, kernel/pipe.c and kernel/console.c.  A pointer to a process is its index
  in proc[], a pointer to a thread the index of its process and its own; a null pointer is None.
  Trapframes and their backups are in physical memory, as in the code; the names of processes
  and threads are the bytes before the terminator.

  Code that calls swtch is a resumption of type \<open>run\<close>: it is done, has failed, or has left the CPU
  with a state and goes on from the state in which the scheduler resumes it.  The hart a
  kernel thread runs on is the field \<open>hart\<close>, so a thread may be resumed on another hart.
\<close>

unbundle bit_operations_syntax

section \<open>Integers as bytes\<close>

text \<open>The bytes of an integer in memory or on disk, least significant first.\<close>

definition le_bytes :: "nat \<Rightarrow> 'a::len word \<Rightarrow> u8 list" where
  "le_bytes n w = map (\<lambda>i. ucast (drop_bit (8 * i) w)) [0..<n]"

primrec le_word :: "u8 list \<Rightarrow> 'a::len word" where
  "le_word [] = 0"
| "le_word (b # bs) = ucast b OR push_bit 8 (le_word bs)"

lemma length_le_bytes [simp]: "length (le_bytes n w) = n"
  by (simp add: le_bytes_def)

lemma le_bytes_Suc: "le_bytes (Suc n) w = ucast w # le_bytes n (drop_bit 8 w)"
proof -
  have "[0..<Suc n] = 0 # map Suc [0..<n]" by (simp add: map_Suc_upt upt_conv_Cons del: upt_Suc)
  then show ?thesis by (simp add: le_bytes_def comp_def add.commute)
qed

lemma le_word_bytes: "le_word (le_bytes n w) = take_bit (8 * n) w"
proof (induction n arbitrary: w)
  case 0
  then show ?case by (simp add: le_bytes_def)
next
  case (Suc n)
  show ?case
    by (rule bit_word_eqI)
      (auto simp: le_bytes_Suc Suc bit_or_iff bit_push_bit_iff bit_take_bit_iff bit_drop_bit_eq bit_ucast_iff)
qed

section \<open>Resumptions\<close>

datatype fault = FPanic string | FUndef | FSpins

codatatype ('s, 'a) run =
    Done 'a 's
  | Fail fault
  | Swtch 's "'s \<Rightarrow> ('s, 'a) run"

primcorec rbind :: "('s, 'a) run \<Rightarrow> ('a \<Rightarrow> 's \<Rightarrow> ('s, 'b) run) \<Rightarrow> ('s, 'b) run" where
  "rbind r f = (case r of
     Done a s \<Rightarrow> (case f a s of Done b s' \<Rightarrow> Done b s' | Fail e \<Rightarrow> Fail e | Swtch s' k \<Rightarrow> Swtch s' k)
   | Fail e \<Rightarrow> Fail e
   | Swtch s k \<Rightarrow> Swtch s (\<lambda>s'. rbind (k s') f))"

lemma rbind_simps [simp]:
  "rbind (Done a s) f = f a s" "rbind (Fail e) f = Fail e"
  "rbind (Swtch s k) f = Swtch s (\<lambda>s'. rbind (k s') f)"
  by (subst rbind.code, simp split: run.split)+

fun lift :: "('a \<times> 's) res \<Rightarrow> ('s, 'a) run" where
  "lift (Ok (a, s)) = Done a s"
| "lift (Panic e) = Fail (FPanic e)"
| "lift Undef = Fail FUndef"
| "lift Spins = Fail FSpins"

fun lift0 :: "'s res \<Rightarrow> ('s, unit) run" where
  "lift0 (Ok s) = Done () s"
| "lift0 (Panic e) = Fail (FPanic e)"
| "lift0 Undef = Fail FUndef"
| "lift0 Spins = Fail FSpins"

text \<open>
  A loop whose every iteration leaves it with a result (\<open>Some\<close>) or gives up the CPU before the
  next one (\<open>None\<close>).  An iteration that does neither spins.
\<close>

primcorec rwhile :: "('s \<Rightarrow> ('s, 'a option) run) \<Rightarrow> ('s, 'a option) run \<Rightarrow> ('s, 'a) run" where
  "rwhile b r = (case r of
     Done (Some a) s \<Rightarrow> Done a s
   | Done None s \<Rightarrow> (case b s of
         Done (Some a) s' \<Rightarrow> Done a s'
       | Done None s' \<Rightarrow> Fail FSpins
       | Fail e \<Rightarrow> Fail e
       | Swtch s' k \<Rightarrow> Swtch s' (\<lambda>s''. rwhile b (k s'')))
   | Fail e \<Rightarrow> Fail e
   | Swtch s k \<Rightarrow> Swtch s (\<lambda>s'. rwhile b (k s')))"

definition rloop :: "('s \<Rightarrow> ('s, 'a option) run) \<Rightarrow> 's \<Rightarrow> ('s, 'a) run" where
  "rloop b s = rwhile b (Done None s)"

lemma rwhile_simps [simp]:
  "rwhile b (Done (Some a) s) = Done a s" "rwhile b (Fail e) = Fail e"
  "rwhile b (Swtch s k) = Swtch s (\<lambda>s'. rwhile b (k s'))" "rwhile b (Done None s) = rloop b s"
  by (subst rwhile.code, simp) (subst rwhile.code, simp, subst rwhile.code, simp, subst rloop_def, rule refl)

lemma rloop_simps:
  "b s = Done (Some a) s' \<Longrightarrow> rloop b s = Done a s'" "b s = Fail e \<Longrightarrow> rloop b s = Fail e"
  "b s = Swtch s' k \<Longrightarrow> rloop b s = Swtch s' (\<lambda>s''. rwhile b (k s''))"
  "b s = Done None s' \<Longrightarrow> rloop b s = Fail FSpins"
  by (subst rloop_def, subst rwhile.code, simp)+

text \<open>The same with a loop variable: \<open>Inl x\<close> goes on with \<open>x\<close>, \<open>Inr a\<close> leaves the loop with \<open>a\<close>.\<close>

primcorec rwhilex :: "('x \<Rightarrow> 's \<Rightarrow> ('s, 'x + 'a) run) \<Rightarrow> ('s, 'x + 'a) run \<Rightarrow> ('s, 'a) run" where
  "rwhilex b r = (case r of
     Done (Inr a) s \<Rightarrow> Done a s
   | Done (Inl x) s \<Rightarrow> (case b x s of
         Done (Inr a) s' \<Rightarrow> Done a s'
       | Done (Inl y) s' \<Rightarrow> Fail FSpins
       | Fail e \<Rightarrow> Fail e
       | Swtch s' k \<Rightarrow> Swtch s' (\<lambda>s''. rwhilex b (k s'')))
   | Fail e \<Rightarrow> Fail e
   | Swtch s k \<Rightarrow> Swtch s (\<lambda>s'. rwhilex b (k s')))"

definition rloopx :: "('x \<Rightarrow> 's \<Rightarrow> ('s, 'x + 'a) run) \<Rightarrow> 'x \<Rightarrow> 's \<Rightarrow> ('s, 'a) run" where
  "rloopx b x s = rwhilex b (Done (Inl x) s)"

lemma rwhilex_simps [simp]:
  "rwhilex b (Done (Inr a) s) = Done a s" "rwhilex b (Fail e) = Fail e"
  "rwhilex b (Swtch s k) = Swtch s (\<lambda>s'. rwhilex b (k s'))" "rwhilex b (Done (Inl x) s) = rloopx b x s"
  by (subst rwhilex.code, simp) (subst rwhilex.code, simp, subst rwhilex.code, simp, subst rloopx_def, rule refl)

lemma rloopx_simps:
  "b x s = Done (Inr a) s' \<Longrightarrow> rloopx b x s = Done a s'" "b x s = Fail e \<Longrightarrow> rloopx b x s = Fail e"
  "b x s = Swtch s' k \<Longrightarrow> rloopx b x s = Swtch s' (\<lambda>s''. rwhilex b (k s''))"
  by (subst rloopx_def, subst rwhilex.code, simp)+

section \<open>Processes and threads\<close>

datatype procstate = UNUSED | USED | RUNNABLE | ZOMBIE

datatype threadstate = T_UNUSED | T_USED | T_SLEEPING | T_RUNNABLE | T_RUNNING | T_ZOMBIE

text \<open>What a thread sleeps on: the address the code passes as the channel.\<close>

datatype slock = BufLock nat | InodeLock nat

datatype chan =
    ChProc nat | ChThread nat nat | ChTicks | ChSleeplock slock | ChLog | ChBuf nat | ChDisk
  | ChPipeR u64 | ChPipeW u64 | ChCons | ChUart

text \<open>struct context: ra, sp and the callee-saved registers s0 to s11.\<close>

record context_regs =
  ctx_ra :: u64
  ctx_sp :: u64
  ctx_s :: "nat \<Rightarrow> u64"

record thread =
  t_state :: threadstate
  t_chan :: "chan option"
  t_killed :: i32
  t_xstate :: i32
  t_tid :: i32
  t_my_p :: "nat option"
  t_kstack :: u64
  t_trapframe :: u64
  t_context :: context_regs
  t_name :: "u8 list"
  t_backup :: u64          \<comment> \<open>user_trap_frame_backup\<close>

record proc =
  p_state :: procstate
  p_killed :: i32
  p_xstate :: i32
  p_pid :: i32
  p_parent :: "nat option"
  p_sz :: u64
  p_pagetable :: u64
  p_ofile :: "nat \<Rightarrow> nat option"
  p_cwd :: "nat option"
  p_name :: "u8 list"
  p_threads :: "nat \<Rightarrow> thread"
  p_pending :: u32         \<comment> \<open>pending_signals\<close>
  p_mask :: u32            \<comment> \<open>signal_mask\<close>
  p_mask_backup :: u32     \<comment> \<open>signal_mask_backup\<close>
  p_counter :: i32         \<comment> \<open>handling_signal_counter\<close>
  p_handlers :: "nat \<Rightarrow> u64"
  p_masks :: "nat \<Rightarrow> i32"  \<comment> \<open>signal_handlers_maskes\<close>
  p_stopped :: i32
  p_handling :: i32        \<comment> \<open>handling_signals\<close>

record bsem =
  bs_descriptor :: i32
  bs_free :: i32
  bs_threads :: "nat \<Rightarrow> (nat \<times> nat) option"   \<comment> \<open>threasd_array\<close>

abbreviation NTHREAD :: nat where "NTHREAD \<equiv> 8"
abbreviation NOFILE :: nat where "NOFILE \<equiv> 16"
abbreviation MAX_BSEM :: nat where "MAX_BSEM \<equiv> 128"
abbreviation SIG_DFL :: u64 where "SIG_DFL \<equiv> 0"
abbreviation SIG_IGN :: u64 where "SIG_IGN \<equiv> 1"
abbreviation SIGKILL :: nat where "SIGKILL \<equiv> 9"
abbreviation SIGSTOP :: nat where "SIGSTOP \<equiv> 17"
abbreviation SIGCONT :: nat where "SIGCONT \<equiv> 19"
abbreviation MAX_STACK_SIZE :: u64 where "MAX_STACK_SIZE \<equiv> 4000"

section \<open>Files and the disk\<close>

record sleeplock =
  sl_locked :: u32
  sl_pid :: i32

text \<open>The nodes of the list of buffers: its head and the buffers.\<close>

datatype bnode = BHead | BBuf nat

record buf =
  b_valid :: i32
  b_disk :: i32
  b_dev :: u32
  b_blockno :: u32
  b_lock :: sleeplock
  b_refcnt :: u32
  b_prev :: bnode
  b_next :: bnode
  b_data :: "u8 list"

record superblock =
  sb_magic :: u32
  sb_size :: u32
  sb_nblocks :: u32
  sb_ninodes :: u32
  sb_nlog :: u32
  sb_logstart :: u32
  sb_inodestart :: u32
  sb_bmapstart :: u32

record logst =
  l_start :: i32
  l_size :: i32
  l_outstanding :: i32
  l_committing :: i32
  l_dev :: i32
  lh_n :: i32
  lh_block :: "nat \<Rightarrow> i32"

record inode =
  i_dev :: u32
  i_inum :: u32
  i_ref :: i32
  i_lock :: sleeplock
  i_valid :: i32
  i_type :: u16
  i_major :: u16
  i_minor :: u16
  i_nlink :: u16
  i_size :: u32
  i_addrs :: "nat \<Rightarrow> u32"

datatype ftype = FD_NONE | FD_PIPE | FD_INODE | FD_DEVICE

record kfile =
  f_type :: ftype
  f_ref :: i32
  f_readable :: bool
  f_writable :: bool
  f_pipe :: u64
  f_ip :: "nat option"
  f_off :: u32
  f_major :: u16

record pipe =
  pi_data :: "nat \<Rightarrow> u8"
  pi_nread :: u32
  pi_nwrite :: u32
  pi_readopen :: i32
  pi_writeopen :: i32

record console =
  cons_buf :: "nat \<Rightarrow> u8"
  cons_r :: u32
  cons_w :: u32
  cons_e :: u32

text \<open>
  The serial port: the transmit buffer of kernel/uart.c, and the device as the driver sees it, how many
  bytes it accepts now (\<open>LSR_TX_IDLE\<close> is set while there is room), the bytes it received and the
  bytes it was given.
\<close>

record uartst =
  tx_buf :: "nat \<Rightarrow> u8"
  tx_w :: u64
  tx_r :: u64
  u_room :: nat
  u_rx :: "u8 list"
  u_sent :: "u8 list"

text \<open>
  The queue the disk driver shares with the device (kernel/virtio_disk.c): an address in a descriptor
  is what it points to, a command header, the data of a buffer or a status byte.
\<close>

datatype daddr = ANull | AOps nat | AData nat | AStatus nat

record virtq_desc =
  d_addr :: daddr
  d_len :: u32
  d_flags :: u16
  d_next :: u16

record vdisk =
  v_desc :: "nat \<Rightarrow> virtq_desc"
  v_avail_idx :: u16
  v_avail_ring :: "nat \<Rightarrow> u16"
  v_used_dev_idx :: u16       \<comment> \<open>used->idx, which the device increments\<close>
  v_used_ring :: "nat \<Rightarrow> u32"   \<comment> \<open>the ids in used->ring\<close>
  v_free :: "nat \<Rightarrow> bool"
  v_used_idx :: u16
  v_info_b :: "nat \<Rightarrow> nat option"
  v_info_status :: "nat \<Rightarrow> u8"
  v_ops :: "nat \<Rightarrow> u32 \<times> u64"    \<comment> \<open>type and sector of a command\<close>

record fsys =
  bufs :: "nat \<Rightarrow> buf"
  bc_prev :: bnode         \<comment> \<open>bcache.head\<close>
  bc_next :: bnode
  sblk :: superblock
  log :: logst
  inodes :: "nat \<Rightarrow> inode"   \<comment> \<open>itable.inode\<close>
  files :: "nat \<Rightarrow> kfile"     \<comment> \<open>ftable.file\<close>
  pipes :: "u64 \<Rightarrow> pipe"     \<comment> \<open>by the page kalloc gave them\<close>
  cons :: console
  vdisk :: vdisk
  disk :: "nat \<Rightarrow> u8 list"   \<comment> \<open>the blocks of the disk, which only the device reads and writes\<close>

section \<open>The kernel state\<close>

record kst =
  hart :: nat
  mach :: machine
  procs :: "nat \<Rightarrow> proc"
  initproc :: "nat option"
  nextpid :: i32
  nexttid :: i32
  bsems :: "nat \<Rightarrow> bsem"
  ticks :: u32
  first :: bool            \<comment> \<open>the static of forkret\<close>
  fs :: fsys
  uart :: uartst
  devsw :: "nat \<Rightarrow> bool"      \<comment> \<open>the majors with the handlers of the console\<close>
  panicked :: bool
  pr_locking :: bool
  sym_forkret :: u64       \<comment> \<open>addresses the linker gives\<close>
  sym_trampoline :: u64
  sym_usertrap :: u64
  kernel_satp :: u64       \<comment> \<open>what r_satp reads in the kernel\<close>
  stack_junk :: "u8 list"    \<comment> \<open>what uninitialised local variables hold\<close>

text \<open>The statically allocated data as the program loader leaves it: zero but for its initialisers.\<close>

definition zero_thread :: thread where
  "zero_thread = \<lparr>t_state = T_UNUSED, t_chan = None, t_killed = 0, t_xstate = 0, t_tid = 0, t_my_p = None,
     t_kstack = 0, t_trapframe = 0, t_context = \<lparr>ctx_ra = 0, ctx_sp = 0, ctx_s = (\<lambda>_. 0)\<rparr>, t_name = [],
     t_backup = 0\<rparr>"

definition zero_proc :: proc where
  "zero_proc = \<lparr>p_state = UNUSED, p_killed = 0, p_xstate = 0, p_pid = 0, p_parent = None, p_sz = 0,
     p_pagetable = 0, p_ofile = (\<lambda>_. None), p_cwd = None, p_name = [], p_threads = (\<lambda>_. zero_thread),
     p_pending = 0, p_mask = 0, p_mask_backup = 0, p_counter = 0, p_handlers = (\<lambda>_. 0), p_masks = (\<lambda>_. 0),
     p_stopped = 0, p_handling = 0\<rparr>"

definition zero_sleeplock :: sleeplock where
  "zero_sleeplock = \<lparr>sl_locked = 0, sl_pid = 0\<rparr>"

definition zero_fs :: fsys where
  "zero_fs = \<lparr>bufs = (\<lambda>_. \<lparr>b_valid = 0, b_disk = 0, b_dev = 0, b_blockno = 0, b_lock = zero_sleeplock,
       b_refcnt = 0, b_prev = BHead, b_next = BHead, b_data = replicate 1024 0\<rparr>),
     bc_prev = BHead, bc_next = BHead,
     sblk = \<lparr>sb_magic = 0, sb_size = 0, sb_nblocks = 0, sb_ninodes = 0, sb_nlog = 0, sb_logstart = 0,
       sb_inodestart = 0, sb_bmapstart = 0\<rparr>,
     log = \<lparr>l_start = 0, l_size = 0, l_outstanding = 0, l_committing = 0, l_dev = 0, lh_n = 0,
       lh_block = (\<lambda>_. 0)\<rparr>,
     inodes = (\<lambda>_. \<lparr>i_dev = 0, i_inum = 0, i_ref = 0, i_lock = zero_sleeplock, i_valid = 0, i_type = 0,
       i_major = 0, i_minor = 0, i_nlink = 0, i_size = 0, i_addrs = (\<lambda>_. 0)\<rparr>),
     files = (\<lambda>_. \<lparr>f_type = FD_NONE, f_ref = 0, f_readable = False, f_writable = False, f_pipe = 0,
       f_ip = None, f_off = 0, f_major = 0\<rparr>),
     pipes = (\<lambda>_. \<lparr>pi_data = (\<lambda>_. 0), pi_nread = 0, pi_nwrite = 0, pi_readopen = 0, pi_writeopen = 0\<rparr>),
     cons = \<lparr>cons_buf = (\<lambda>_. 0), cons_r = 0, cons_w = 0, cons_e = 0\<rparr>,
     vdisk = \<lparr>v_desc = (\<lambda>_. \<lparr>d_addr = ANull, d_len = 0, d_flags = 0, d_next = 0\<rparr>), v_avail_idx = 0,
       v_avail_ring = (\<lambda>_. 0), v_used_dev_idx = 0, v_used_ring = (\<lambda>_. 0), v_free = (\<lambda>_. False),
       v_used_idx = 0, v_info_b = (\<lambda>_. None), v_info_status = (\<lambda>_. 0), v_ops = (\<lambda>_. (0, 0))\<rparr>,
     disk = (\<lambda>_. replicate 1024 0)\<rparr>"

definition boot_kst :: "machine \<Rightarrow> kst" where
  "boot_kst m = \<lparr>hart = 0, mach = m, procs = (\<lambda>_. zero_proc), initproc = None, nextpid = 1, nexttid = 1,
     bsems = (\<lambda>_. \<lparr>bs_descriptor = 0, bs_free = 0, bs_threads = (\<lambda>_. None)\<rparr>), ticks = 0, first = True,
     fs = zero_fs,
     uart = \<lparr>tx_buf = (\<lambda>_. 0), tx_w = 0, tx_r = 0, u_room = 1, u_rx = [], u_sent = []\<rparr>,
     devsw = (\<lambda>_. False), panicked = False, pr_locking = False, sym_forkret = 0x80002000, sym_trampoline = 0x80008000, sym_usertrap = 0x80003000, kernel_satp = 0,
     stack_junk = replicate 64 0\<rparr>"

section \<open>Access to the state\<close>

text \<open>Calls of the code that runs on the machine alone, on the hart of the kernel thread.\<close>

definition mcall :: "(nat \<Rightarrow> machine \<Rightarrow> machine res) \<Rightarrow> kst \<Rightarrow> kst res" where
  "mcall f s = kbind (f (hart s) (mach s)) (\<lambda>m. Ok (s\<lparr>mach := m\<rparr>))"

definition mget :: "(nat \<Rightarrow> machine \<Rightarrow> ('a \<times> machine) res) \<Rightarrow> kst \<Rightarrow> ('a \<times> kst) res" where
  "mget f s = kbind (f (hart s) (mach s)) (\<lambda>(a, m). Ok (a, s\<lparr>mach := m\<rparr>))"

abbreviation kacquire :: "lockid \<Rightarrow> kst \<Rightarrow> kst res" where
  "kacquire lk \<equiv> mcall (\<lambda>h. acquire h lk)"

abbreviation krelease :: "lockid \<Rightarrow> kst \<Rightarrow> kst res" where
  "krelease lk \<equiv> mcall (\<lambda>h. release h lk)"

definition upd_proc :: "nat \<Rightarrow> (proc \<Rightarrow> proc) \<Rightarrow> kst \<Rightarrow> kst" where
  "upd_proc i f s = s\<lparr>procs := (procs s)(i := f (procs s i))\<rparr>"

definition thr :: "kst \<Rightarrow> nat \<times> nat \<Rightarrow> thread" where
  "thr s t = p_threads (procs s (fst t)) (snd t)"

definition upd_thr :: "nat \<times> nat \<Rightarrow> (thread \<Rightarrow> thread) \<Rightarrow> kst \<Rightarrow> kst" where
  "upd_thr t f s =
    upd_proc (fst t) (\<lambda>p. p\<lparr>p_threads := (p_threads p)(snd t := f (p_threads p (snd t)))\<rparr>) s"

definition upd_mem :: "(mem \<Rightarrow> mem) \<Rightarrow> kst \<Rightarrow> kst" where
  "upd_mem f s = s\<lparr>mach := (mach s)\<lparr>pmem := f (pmem (mach s))\<rparr>\<rparr>"

abbreviation kmem :: "kst \<Rightarrow> mem" where "kmem s \<equiv> pmem (mach s)"

definition upd_bsem :: "nat \<Rightarrow> (bsem \<Rightarrow> bsem) \<Rightarrow> kst \<Rightarrow> kst" where
  "upd_bsem i f s = s\<lparr>bsems := (bsems s)(i := f (bsems s i))\<rparr>"

definition upd_fs :: "(fsys \<Rightarrow> fsys) \<Rightarrow> kst \<Rightarrow> kst" where
  "upd_fs f s = s\<lparr>fs := f (fs s)\<rparr>"

text \<open>Dereferencing a pointer that may be null.\<close>

fun deref :: "'a option \<Rightarrow> ('a \<Rightarrow> 'b res) \<Rightarrow> 'b res" where
  "deref None f = Undef"
| "deref (Some x) f = f x"

fun rderef :: "'a option \<Rightarrow> ('a \<Rightarrow> ('s, 'b) run) \<Rightarrow> ('s, 'b) run" where
  "rderef None f = Fail FUndef"
| "rderef (Some x) f = f x"

text \<open>Loops over the elements of an array, by the list of its indices.\<close>

primrec kfor :: "('x \<Rightarrow> 's \<Rightarrow> 's res) \<Rightarrow> 'x list \<Rightarrow> 's \<Rightarrow> 's res" where
  "kfor f [] s = Ok s"
| "kfor f (x # xs) s = kbind (f x s) (kfor f xs)"

primrec rfor :: "('x \<Rightarrow> 's \<Rightarrow> ('s, unit) run) \<Rightarrow> 'x list \<Rightarrow> 's \<Rightarrow> ('s, unit) run" where
  "rfor f [] s = Done () s"
| "rfor f (x # xs) s = rbind (f x s) (\<lambda>_. rfor f xs)"

text \<open>A C comparison \<open>a < b\<close> of ints, and the int that a non-negative index is.\<close>

abbreviation slt :: "i32 \<Rightarrow> i32 \<Rightarrow> bool" where "slt a b \<equiv> sint a < sint b"

subsection \<open>Trapframes\<close>

text \<open>Offsets of the fields of struct trapframe (kernel/proc.h) and its size.\<close>

abbreviation TF_kernel_satp :: u64 where "TF_kernel_satp \<equiv> 0"
abbreviation TF_kernel_sp :: u64 where "TF_kernel_sp \<equiv> 8"
abbreviation TF_kernel_trap :: u64 where "TF_kernel_trap \<equiv> 16"
abbreviation TF_epc :: u64 where "TF_epc \<equiv> 24"
abbreviation TF_kernel_hartid :: u64 where "TF_kernel_hartid \<equiv> 32"
abbreviation TF_ra :: u64 where "TF_ra \<equiv> 40"
abbreviation TF_sp :: u64 where "TF_sp \<equiv> 48"
abbreviation TF_a0 :: u64 where "TF_a0 \<equiv> 112"
abbreviation TF_a7 :: u64 where "TF_a7 \<equiv> 168"
abbreviation TF_size :: u32 where "TF_size \<equiv> 288"

definition tf_get :: "kst \<Rightarrow> nat \<times> nat \<Rightarrow> u64 \<Rightarrow> u64" where
  "tf_get s t off = ld64 (kmem s) (t_trapframe (thr s t) + off)"

definition tf_set :: "nat \<times> nat \<Rightarrow> u64 \<Rightarrow> u64 \<Rightarrow> kst \<Rightarrow> kst" where
  "tf_set t off v s = upd_mem (\<lambda>m. st64 m (t_trapframe (thr s t) + off) v) s"

section \<open>Frame lemmas\<close>

named_theorems kst_simps \<open>reads of the kernel state over its updates\<close>

lemma mcall_Ok [simp]: "f (hart s) (mach s) = Ok m \<Longrightarrow> mcall f s = Ok (s\<lparr>mach := m\<rparr>)"
  by (simp add: mcall_def)

lemma mget_Ok [simp]: "f (hart s) (mach s) = Ok (a, m) \<Longrightarrow> mget f s = Ok (a, s\<lparr>mach := m\<rparr>)"
  by (simp add: mget_def)

lemma upd_proc_fields [simp]:
  "mach (upd_proc i f s) = mach s" "hart (upd_proc i f s) = hart s" "bsems (upd_proc i f s) = bsems s"
  "procs (upd_proc i f s) k = (if k = i then f (procs s i) else procs s k)"
  "fs (upd_proc i f s) = fs s" "initproc (upd_proc i f s) = initproc s"
  "nextpid (upd_proc i f s) = nextpid s" "nexttid (upd_proc i f s) = nexttid s"
  by (simp_all add: upd_proc_def)

lemma upd_thr_fields [simp]:
  "mach (upd_thr t f s) = mach s" "hart (upd_thr t f s) = hart s" "bsems (upd_thr t f s) = bsems s"
  "fs (upd_thr t f s) = fs s" "initproc (upd_thr t f s) = initproc s"
  "nextpid (upd_thr t f s) = nextpid s" "nexttid (upd_thr t f s) = nexttid s"
  by (simp_all add: upd_thr_def)

lemma upd_bsem_fields [simp]:
  "mach (upd_bsem t f s) = mach s" "hart (upd_bsem t f s) = hart s"
  "procs (upd_bsem i f s) = procs s" "upd_bsem i f (s\<lparr>mach := m\<rparr>) = upd_bsem i f s\<lparr>mach := m\<rparr>"
  "bsems (upd_bsem i f s) k = (if k = i then f (bsems s i) else bsems s k)"
  by (simp_all add: upd_bsem_def)

lemma thr_upd_thr [simp]: "thr (upd_thr t f s) t' = (if t' = t then f (thr s t) else thr s t')"
  by (cases t; cases t') (auto simp: thr_def upd_thr_def)

lemma thr_mach [simp]:
  "thr (s\<lparr>mach := m\<rparr>) t = thr s t" "thr (s\<lparr>hart := h\<rparr>) t = thr s t" "thr (s\<lparr>bsems := b\<rparr>) t = thr s t"
  "thr (upd_bsem i g s) t = thr s t"
  by (simp_all add: thr_def)

lemma upd_fs_fields [simp]:
  "mach (upd_fs f s) = mach s" "hart (upd_fs f s) = hart s" "procs (upd_fs f s) = procs s"
  "bsems (upd_fs f s) = bsems s" "fs (upd_fs f s) = f (fs s)" "thr (upd_fs f s) t = thr s t"
  "upd_fs f (s\<lparr>mach := m\<rparr>) = upd_fs f s\<lparr>mach := m\<rparr>" "fs (upd_mem g s) = fs s"
  by (simp_all add: upd_fs_def thr_def upd_mem_def)

text \<open>The fields of a process other than its threads are not changed by an update of a thread.\<close>

lemma procs_upd_thr:
  "procs (upd_thr t f s) k =
    (if k = fst t then (procs s k)\<lparr>p_threads := (p_threads (procs s k))(snd t := f (thr s t))\<rparr> else procs s k)"
  by (simp add: upd_thr_def thr_def)

lemma upd_mem_fields [simp]:
  "procs (upd_mem f s) = procs s" "hart (upd_mem f s) = hart s" "bsems (upd_mem f s) = bsems s"
  "thr (upd_mem f s) t = thr s t" "kmem (upd_mem f s) = f (kmem s)"
  by (simp_all add: upd_mem_def thr_def)

lemma lift_Ok_iff [simp]: "lift r = Done a s \<longleftrightarrow> r = Ok (a, s)"
  by (cases r rule: lift.cases) auto

lemma lift0_Ok_iff [simp]: "lift0 r = Done () s \<longleftrightarrow> r = Ok s"
  by (cases r) auto

end
