(* ===== verification/Sched.thy ===== *)
theory Sched
  imports Kstate
begin

text \<open>
  The part of kernel/proc.c that gives up and hands out the CPU: the current process and thread,
  sched, yield, sleep, wakeup and the scheduler loop.  A thread that calls \<open>sched\<close> leaves the CPU with
  \<open>Swtch\<close>; a pass of the scheduler switches into threads with \<open>Swtch\<close> in the same way.  What runs between
  two switches of a hart is one step.
\<close>

section \<open>The current process and thread\<close>

definition cpuid :: "kst \<Rightarrow> nat" where
  "cpuid s = hart s"

definition mycpu :: "kst \<Rightarrow> cpu" where
  "mycpu s = cpus (mach s) (cpuid s)"

definition upd_mycpu :: "nat \<Rightarrow> (cpu \<Rightarrow> cpu) \<Rightarrow> kst \<Rightarrow> kst" where
  "upd_mycpu h f s = s\<lparr>mach := upd_cpu h f (mach s)\<rparr>"

definition myproc :: "kst \<Rightarrow> (nat option \<times> kst) res" where
  "myproc s =
    (let s = s\<lparr>mach := push_off (hart s) (mach s)\<rparr>; p = cpu_proc (mycpu s)
     in kbind (mcall pop_off s) (\<lambda>s. Ok (p, s)))"

definition mythread :: "kst \<Rightarrow> ((nat \<times> nat) option \<times> kst) res" where
  "mythread s =
    (let s = s\<lparr>mach := push_off (hart s) (mach s)\<rparr>; t = cpu_thread (mycpu s)
     in kbind (mcall pop_off s) (\<lambda>s. Ok (t, s)))"

section \<open>Giving up the CPU\<close>

definition sched :: "kst \<Rightarrow> (kst, unit) run" where
  "sched s =
    rbind (lift (myproc s)) (\<lambda>p s.
    rbind (lift (mythread s)) (\<lambda>t s.
    rderef p (\<lambda>p.
    if \<not> holding (hart s) (ProcLock p) (mach s) then Fail (FPanic ''sched p->lock'')
    else if cpu_noff (mycpu s) \<noteq> 1 then Fail (FPanic ''sched locks'')
    else rderef t (\<lambda>t.
      if t_state (thr s t) = T_RUNNING then Fail (FPanic ''sched running'')
      else if intr_get (hart s) (mach s) then Fail (FPanic ''sched interruptible'')
      else let intena = cpu_intena (mycpu s)
           in Swtch s (\<lambda>s. Done () (upd_mycpu (cpuid s) (cpu_intena_update (\<lambda>_. intena)) s))))))"

definition yield :: "kst \<Rightarrow> (kst, unit) run" where
  "yield s =
    rbind (lift (myproc s)) (\<lambda>p s.
    rbind (lift (mythread s)) (\<lambda>t s.
    rderef p (\<lambda>p. rderef t (\<lambda>t.
    rbind (lift0 (kacquire (ProcLock p) s)) (\<lambda>_ s.
    rbind (sched (upd_thr t (t_state_update (\<lambda>_. T_RUNNABLE)) s)) (\<lambda>_ s.
    lift0 (krelease (ProcLock p) s)))))))"

definition sleep :: "chan \<Rightarrow> lockid \<Rightarrow> kst \<Rightarrow> (kst, unit) run" where
  "sleep ch lk s =
    rbind (lift (myproc s)) (\<lambda>p s.
    rbind (lift (mythread s)) (\<lambda>t s.
    rderef p (\<lambda>p. rderef t (\<lambda>t.
    rbind (lift0 (kacquire (ProcLock p) s)) (\<lambda>_ s.
    rbind (lift0 (krelease lk s)) (\<lambda>_ s.
    rbind (sched (upd_thr t (\<lambda>x. x\<lparr>t_chan := Some ch, t_state := T_SLEEPING\<rparr>) s)) (\<lambda>_ s.
    rbind (lift0 (krelease (ProcLock p) (upd_thr t (t_chan_update (\<lambda>_. None)) s))) (\<lambda>_ s.
    lift0 (kacquire lk s)))))))))"

text \<open>The threads of a process that \<open>wakeup\<close> makes runnable; the channel may be null.\<close>

definition wake_threads :: "chan option \<Rightarrow> proc \<Rightarrow> proc" where
  "wake_threads ch p = p\<lparr>p_threads := (\<lambda>j.
     let t = p_threads p j
     in if j < NTHREAD \<and> t_state t = T_SLEEPING \<and> t_chan t = ch then t\<lparr>t_state := T_RUNNABLE\<rparr> else t)\<rparr>"

definition wakeup_proc :: "chan option \<Rightarrow> nat \<Rightarrow> kst \<Rightarrow> kst res" where
  "wakeup_proc ch p s =
    kbind (kacquire (ProcLock p) s) (\<lambda>s.
    krelease (ProcLock p) (if p_state (procs s p) = RUNNABLE then upd_proc p (wake_threads ch) s else s))"

definition wakeup :: "chan option \<Rightarrow> kst \<Rightarrow> kst res" where
  "wakeup ch s = kfor (wakeup_proc ch) [0..<NPROC] s"

section \<open>The scheduler\<close>

definition scheduler_thread :: "nat \<Rightarrow> nat \<Rightarrow> nat \<Rightarrow> kst \<Rightarrow> (kst, unit) run" where
  "scheduler_thread c p t s =
    (if t_state (thr s (p, t)) = T_RUNNABLE then
       Swtch (upd_mycpu c (\<lambda>x. x\<lparr>cpu_proc := Some p, cpu_thread := Some (p, t)\<rparr>)
               (upd_thr (p, t) (t_state_update (\<lambda>_. T_RUNNING)) s))
         (\<lambda>s. Done () (upd_mycpu c (\<lambda>x. x\<lparr>cpu_proc := None, cpu_thread := None\<rparr>) s))
     else Done () s)"

definition scheduler_proc :: "nat \<Rightarrow> nat \<Rightarrow> kst \<Rightarrow> (kst, unit) run" where
  "scheduler_proc c p s =
    rbind (lift0 (kacquire (ProcLock p) s)) (\<lambda>_ s.
    rbind (if p_state (procs s p) = RUNNABLE then rfor (scheduler_thread c p) [0..<NTHREAD] s
           else Done () s) (\<lambda>_ s.
    lift0 (krelease (ProcLock p) s)))"

text \<open>The first \<open>n\<close> passes of the endless loop of \<open>scheduler\<close>.\<close>

primrec scheduler_passes :: "nat \<Rightarrow> nat \<Rightarrow> kst \<Rightarrow> (kst, unit) run" where
  "scheduler_passes 0 c s = Done () s"
| "scheduler_passes (Suc n) c s =
    rbind (rfor (scheduler_proc c) [0..<NPROC] (s\<lparr>mach := intr_on (hart s) (mach s)\<rparr>))
      (\<lambda>_. scheduler_passes n c)"

definition scheduler :: "nat \<Rightarrow> kst \<Rightarrow> (kst, unit) run" where
  "scheduler n s =
    (let c = cpuid s in scheduler_passes n c (upd_mycpu c (cpu_proc_update (\<lambda>_. None)) s))"

section \<open>Lemmas\<close>

text \<open>The hart can take locks, and runs the thread \<open>(p, t)\<close>.\<close>

abbreviation kok :: "kst \<Rightarrow> bool" where "kok s \<equiv> cpu_ok (hart s) (mach s)"

abbreviation ktouch :: "kst \<Rightarrow> kst" where "ktouch s \<equiv> s\<lparr>mach := touch (hart s) (mach s)\<rparr>"

abbreviation klocked :: "lockid \<Rightarrow> kst \<Rightarrow> kst" where
  "klocked lk s \<equiv> s\<lparr>mach := locked_by (hart s) lk (mach s)\<rparr>"

definition runs :: "nat \<Rightarrow> nat \<Rightarrow> kst \<Rightarrow> bool" where
  "runs p t s = (cpu_proc (mycpu s) = Some p \<and> cpu_thread (mycpu s) = Some (p, t))"

lemma cpu_push_off [simp]:
  "cpu_proc (cpus (push_off h m) k) = cpu_proc (cpus m k)"
  "cpu_thread (cpus (push_off h m) k) = cpu_thread (cpus m k)"
  by (simp_all add: push_off_unfold upd_cpu_def)

lemma myproc_eq [simp]: "kok s \<Longrightarrow> myproc s = Ok (cpu_proc (mycpu s), ktouch s)"
  by (simp add: myproc_def Let_def mycpu_def cpuid_def pop_push_off)

lemma mythread_eq [simp]: "kok s \<Longrightarrow> mythread s = Ok (cpu_thread (mycpu s), ktouch s)"
  by (simp add: mythread_def Let_def mycpu_def cpuid_def pop_push_off)

lemma touch_locked_by [lock_simps]: "touch h (locked_by h lk m) = locked_by h lk m"
  by (auto simp: locked_by_def touch_def upd_lock_def push_off_unfold upd_cpu_def intro!: machine_eqI)

lemma mycpu_simps [simp]:
  "cpu_proc (mycpu (ktouch s)) = cpu_proc (mycpu s)" "cpu_thread (mycpu (ktouch s)) = cpu_thread (mycpu s)"
  "cpu_proc (mycpu (klocked lk s)) = cpu_proc (mycpu s)"
  "cpu_thread (mycpu (klocked lk s)) = cpu_thread (mycpu s)"
  "mycpu (upd_thr t f s) = mycpu s" "mycpu (upd_proc p g s) = mycpu s"
  by (simp_all add: mycpu_def cpuid_def)

lemma kst_mach_upd [simp]:
  "upd_thr t f (s\<lparr>mach := m\<rparr>) = upd_thr t f s\<lparr>mach := m\<rparr>"
  "upd_proc p g (s\<lparr>mach := m\<rparr>) = upd_proc p g s\<lparr>mach := m\<rparr>"
  by (simp_all add: upd_thr_def upd_proc_def)

lemma sched_leaves:
  assumes "runs p t s" and "kok s" and "holding (hart s) (ProcLock p) (mach s)"
    and "cpu_noff (mycpu s) = 1" and "t_state (thr s (p, t)) \<noteq> T_RUNNING"
  shows "sched s = Swtch (ktouch s) (\<lambda>s'. Done () (upd_mycpu (hart s')
           (cpu_intena_update (\<lambda>_. cpu_intena (mycpu s))) s'))"
proof -
  have "touch (hart s) (mach s) = mach s"
    using assms(4) by (auto simp: touch_def upd_cpu_def mycpu_def cpuid_def intro!: machine_eqI)
  moreover have "\<not> intr_get (hart s) (mach s)"
    using assms(2,4) by (auto simp: cpu_ok_def mycpu_def cpuid_def intr_get_def)
  ultimately show ?thesis
    using assms by (simp add: sched_def runs_def cpuid_def)
qed

lemma wakeup_proc_eq:
  assumes "kok s" and "lock_free (ProcLock p) (mach s)"
  shows "wakeup_proc ch p s =
    Ok (ktouch (if p_state (procs s p) = RUNNABLE then upd_proc p (wake_threads ch) s else s))"
  using assms by (simp add: wakeup_proc_def lock_simps)

definition woken :: "chan option \<Rightarrow> nat set \<Rightarrow> kst \<Rightarrow> kst" where
  "woken ch P s = s\<lparr>procs := (\<lambda>i. if i \<in> P \<and> p_state (procs s i) = RUNNABLE then wake_threads ch (procs s i) else procs s i)\<rparr>"

lemma wakeup_loop:
  assumes "kok s" and "\<forall>p \<in> set ps. lock_free (ProcLock p) (mach s)" and "distinct ps" and "ps \<noteq> []"
  shows "kfor (wakeup_proc ch) ps s = Ok (ktouch (woken ch (set ps) s))"
  using assms
proof (induction ps arbitrary: s)
  case (Cons p ps)
  let ?s = "ktouch (if p_state (procs s p) = RUNNABLE then upd_proc p (wake_threads ch) s else s)"
  have step: "wakeup_proc ch p s = Ok ?s" using Cons.prems by (intro wakeup_proc_eq) auto
  have eq: "ktouch (woken ch (set ps) ?s) = ktouch (woken ch (set (p # ps)) s)"
    using Cons.prems(3)
    by (auto simp: woken_def upd_proc_def lock_simps intro!: kst.equality ext)
  show ?case
  proof (cases "ps = []")
    case True
    then show ?thesis
      by (auto simp: step woken_def upd_proc_def lock_simps intro!: kst.equality ext)
  next
    case False
    then have "kfor (wakeup_proc ch) ps ?s = Ok (ktouch (woken ch (set ps) ?s))"
      using Cons.prems by (intro Cons.IH) (auto simp: lock_simps)
    then show ?thesis by (simp add: step eq)
  qed
qed simp

lemma wakeup_eq:
  assumes "kok s" and "\<forall>p < NPROC. lock_free (ProcLock p) (mach s)"
  shows "wakeup ch s = Ok (ktouch (woken ch {..<NPROC} s))"
  using wakeup_loop [of s "[0..<NPROC]" ch] assms
  by (simp add: wakeup_def lessThan_atLeast0)

lemma woken_fields [simp]:
  "mach (woken ch P s) = mach s" "hart (woken ch P s) = hart s" "fs (woken ch P s) = fs s"
  "bsems (woken ch P s) = bsems s" "uart (woken ch P s) = uart s"
  "ticks (woken ch P s) = ticks s"
  by (simp_all add: woken_def)

lemma woken_mach: "woken ch P (s\<lparr>mach := m\<rparr>) = woken ch P s\<lparr>mach := m\<rparr>"
  by (simp add: woken_def cong: if_cong)

lemma release_resumed:
  assumes "lock_free lk m" and "cpu_noff (cpus m h) = 0"
  obtains m' where "release h lk (upd_cpu h (cpu_intena_update (\<lambda>_. i)) (locked_by h lk m)) = Ok m'"
    and "locks m' = locks m" and "cpu_noff (cpus m' h) = 0" and "pmem m' = pmem m"
proof -
  let ?m = "upd_cpu h (\<lambda>c. c\<lparr>cpu_intena := i, cpu_sie := i\<rparr>) m"
  have "release h lk (upd_cpu h (cpu_intena_update (\<lambda>_. i)) (locked_by h lk m)) = Ok ?m"
    using assms
    by (auto simp: release_def holding_def locked_by_def upd_lock_def push_off_unfold upd_cpu_def
        pop_off_def Let_def intr_get_def intr_on_def lock_free_def intro!: machine_eqI)
  then show thesis using assms by (intro that [of ?m]) (simp_all add: upd_cpu_def)
qed

text \<open>The state in which \<open>sleep\<close> leaves the CPU, and how it goes on.\<close>

definition asleep :: "nat \<Rightarrow> nat \<Rightarrow> chan \<Rightarrow> machine \<Rightarrow> kst \<Rightarrow> kst" where
  "asleep p t ch m s = (upd_thr (p, t) (\<lambda>x. x\<lparr>t_chan := Some ch, t_state := T_SLEEPING\<rparr>) s)
     \<lparr>mach := locked_by (hart s) (ProcLock p) m\<rparr>"

definition sleep_resume :: "nat \<Rightarrow> nat \<Rightarrow> lockid \<Rightarrow> bool \<Rightarrow> kst \<Rightarrow> (kst, unit) run" where
  "sleep_resume p t lk i s = rbind (lift0 (krelease (ProcLock p)
     (upd_thr (p, t) (t_chan_update (\<lambda>_. None)) (upd_mycpu (hart s) (cpu_intena_update (\<lambda>_. i)) s))))
     (\<lambda>_ s. lift0 (kacquire lk s))"

lemma sleep_leaves:
  assumes run: "runs p t s" and m: "mach s = locked_by (hart s) lk m" and "lock_free lk m"
    and "cpu_noff (cpus m (hart s)) = 0" and "lock_free (ProcLock p) m" and "lk \<noteq> ProcLock p"
  shows "sleep ch lk s = Swtch (asleep p t ch m s) (sleep_resume p t lk (cpu_intena (mycpu (asleep p t ch m s))))"
proof -
  have kok: "kok s" using m by (simp add: lock_simps)
  have s_eq: "s\<lparr>mach := locked_by (hart s) lk m\<rparr> = s" using m by simp
  have "kacquire (ProcLock p) s = Ok (klocked (ProcLock p) s)"
    using assms(5,6) by (simp add: m lock_simps)
  moreover have "krelease lk (klocked (ProcLock p) s) = Ok (s\<lparr>mach := locked_by (hart s) (ProcLock p) m\<rparr>)"
    using assms(3,6) by (simp add: m lock_simps)
  moreover have "sched (asleep p t ch m s) = Swtch (ktouch (asleep p t ch m s)) (\<lambda>s'. Done () (upd_mycpu (hart s')
           (cpu_intena_update (\<lambda>_. cpu_intena (mycpu (asleep p t ch m s)))) s'))"
    using assms(4) run
    by (intro sched_leaves [where p = p and t = t])
      (simp_all add: asleep_def lock_simps runs_def m mycpu_def cpuid_def)
  moreover have "ktouch (asleep p t ch m s) = asleep p t ch m s"
    by (simp add: asleep_def lock_simps)
  ultimately show ?thesis
    using run kok by (simp add: sleep_def runs_def m s_eq lock_simps asleep_def sleep_resume_def fun_eq_iff)
qed

lemma sleep_resumes:
  assumes m: "mach s = locked_by (hart s) (ProcLock p) m" "lock_free (ProcLock p) m" "lock_free lk m"
    and n: "cpu_noff (cpus m (hart s)) = 0" and "lk \<noteq> ProcLock p"
  shows "\<exists>s'. sleep_resume p t lk i s = Done () s' \<and> t_chan (thr s' (p, t)) = None \<and>
    holding (hart s) lk (mach s') \<and> lock_free (ProcLock p) (mach s')"
proof -
  obtain m' where m': "release (hart s) (ProcLock p)
      (upd_cpu (hart s) (cpu_intena_update (\<lambda>_. i)) (locked_by (hart s) (ProcLock p) m)) = Ok m'"
    and l: "locks m' = locks m"
    using release_resumed [OF m(2) n, of i] by metis
  have "lock_free lk m'" "lock_free (ProcLock p) m'" using l m by (simp_all add: lock_free_def)
  then show ?thesis using m' assms(5) by (simp add: sleep_resume_def upd_mycpu_def m(1) lock_simps)
qed

section \<open>Properties\<close>


text \<open>One process with one running thread, on a hart that holds the lock of the clock.\<close>

definition one_thread :: "machine \<Rightarrow> kst" where
  "one_thread m = upd_proc 0 (\<lambda>p. p\<lparr>p_state := RUNNABLE, p_pid := 1,
      p_threads := (p_threads p)(0 := (p_threads p 0)\<lparr>t_state := T_RUNNING, t_tid := 1, t_my_p := Some 0\<rparr>)\<rparr>)
    (upd_mycpu 0 (\<lambda>c. c\<lparr>cpu_proc := Some 0, cpu_thread := Some (0, 0)\<rparr>) (boot_kst m))"


end
