(* ===== verification/Sleeplock.thy ===== *)
theory Sleeplock
  imports Sched
begin

text \<open>
  Kernel/sleeplock.c: the locks of buffers and inodes, for which a thread sleeps instead of
  spinning.  \<open>slock\<close> names the lock; its spin lock is \<open>BufSleepLk\<close> or \<open>InodeSleepLk\<close>.
\<close>

fun sl_spin :: "slock \<Rightarrow> lockid" where
  "sl_spin (BufLock i) = BufSleepLk i"
| "sl_spin (InodeLock i) = InodeSleepLk i"

fun sl :: "kst \<Rightarrow> slock \<Rightarrow> sleeplock" where
  "sl s (BufLock i) = b_lock (bufs (fs s) i)"
| "sl s (InodeLock i) = i_lock (inodes (fs s) i)"

definition upd_buf :: "nat \<Rightarrow> (buf \<Rightarrow> buf) \<Rightarrow> kst \<Rightarrow> kst" where
  "upd_buf i f s = upd_fs (\<lambda>x. x\<lparr>bufs := (bufs x)(i := f (bufs x i))\<rparr>) s"

definition upd_inode :: "nat \<Rightarrow> (inode \<Rightarrow> inode) \<Rightarrow> kst \<Rightarrow> kst" where
  "upd_inode i f s = upd_fs (\<lambda>x. x\<lparr>inodes := (inodes x)(i := f (inodes x i))\<rparr>) s"

fun upd_sl :: "slock \<Rightarrow> (sleeplock \<Rightarrow> sleeplock) \<Rightarrow> kst \<Rightarrow> kst" where
  "upd_sl (BufLock i) f s = upd_buf i (b_lock_update f) s"
| "upd_sl (InodeLock i) f s = upd_inode i (i_lock_update f) s"

definition initsleeplock :: "slock \<Rightarrow> kst \<Rightarrow> kst" where
  "initsleeplock lk s =
    upd_sl lk (\<lambda>_. \<lparr>sl_locked = 0, sl_pid = 0\<rparr>)
      (s\<lparr>mach := initlock (sl_spin lk) ''sleep lock'' (mach s)\<rparr>)"

definition acquiresleep_iter :: "slock \<Rightarrow> kst \<Rightarrow> (kst, unit option) run" where
  "acquiresleep_iter lk s =
    (if sl_locked (sl s lk) \<noteq> 0 then rbind (sleep (ChSleeplock lk) (sl_spin lk) s) (\<lambda>_. Done None)
     else Done (Some ()) s)"

definition acquiresleep :: "slock \<Rightarrow> kst \<Rightarrow> (kst, unit) run" where
  "acquiresleep lk s =
    rbind (lift0 (kacquire (sl_spin lk) s)) (\<lambda>_ s.
    rbind (rloop (acquiresleep_iter lk) s) (\<lambda>_ s.
    rbind (lift (myproc (upd_sl lk (sl_locked_update (\<lambda>_. 1)) s))) (\<lambda>p s. rderef p (\<lambda>p.
    lift0 (krelease (sl_spin lk) (upd_sl lk (sl_pid_update (\<lambda>_. p_pid (procs s p))) s))))))"

definition releasesleep :: "slock \<Rightarrow> kst \<Rightarrow> kst res" where
  "releasesleep lk s =
    kbind (kacquire (sl_spin lk) s) (\<lambda>s.
    kbind (wakeup (Some (ChSleeplock lk)) (upd_sl lk (\<lambda>x. x\<lparr>sl_locked := 0, sl_pid := 0\<rparr>) s)) (\<lambda>s.
    krelease (sl_spin lk) s))"

text \<open>The process is dereferenced only when the lock is held.\<close>

definition holdingsleep :: "slock \<Rightarrow> kst \<Rightarrow> (bool \<times> kst) res" where
  "holdingsleep lk s =
    kbind (kacquire (sl_spin lk) s) (\<lambda>s.
    kbind (if sl_locked (sl s lk) \<noteq> 0 then
             kbind (myproc s) (\<lambda>(p, s). deref p (\<lambda>p. Ok (sl_pid (sl s lk) = p_pid (procs s p), s)))
           else Ok (False, s)) (\<lambda>(r, s).
    kbind (krelease (sl_spin lk) s) (\<lambda>s. Ok (r, s))))"

end
