(* ===== verification/Virtio.thy ===== *)
theory Virtio
  imports Sleeplock
begin

text \<open>
  Kernel/virtio_disk.c: the queue of descriptors that the driver shares with the disk.  The device
  itself, which takes chains from the available ring, moves the data and puts them on the used ring,
  is not code of the repository: it acts between the steps of the kernel.
\<close>

unbundle bit_operations_syntax

abbreviation NUM :: nat where "NUM \<equiv> 8"
abbreviation VRING_DESC_F_NEXT :: u16 where "VRING_DESC_F_NEXT \<equiv> 1"
abbreviation VRING_DESC_F_WRITE :: u16 where "VRING_DESC_F_WRITE \<equiv> 2"
abbreviation VIRTIO_BLK_T_IN :: u32 where "VIRTIO_BLK_T_IN \<equiv> 0"
abbreviation VIRTIO_BLK_T_OUT :: u32 where "VIRTIO_BLK_T_OUT \<equiv> 1"
abbreviation BSIZE :: nat where "BSIZE \<equiv> 1024"

abbreviation vd :: "kst \<Rightarrow> vdisk" where "vd s \<equiv> vdisk (fs s)"

definition upd_vd :: "(vdisk \<Rightarrow> vdisk) \<Rightarrow> kst \<Rightarrow> kst" where
  "upd_vd f s = upd_fs (\<lambda>x. x\<lparr>vdisk := f (vdisk x)\<rparr>) s"

definition upd_desc :: "nat \<Rightarrow> (virtq_desc \<Rightarrow> virtq_desc) \<Rightarrow> vdisk \<Rightarrow> vdisk" where
  "upd_desc i f v = v\<lparr>v_desc := (v_desc v)(i := f (v_desc v i))\<rparr>"

definition alloc_desc :: "kst \<Rightarrow> nat option \<times> kst" where
  "alloc_desc s =
    (case find (v_free (vd s)) [0..<NUM] of
       Some i \<Rightarrow> (Some i, upd_vd (\<lambda>v. v\<lparr>v_free := (v_free v)(i := False)\<rparr>) s)
     | None \<Rightarrow> (None, s))"

definition free_desc :: "nat \<Rightarrow> kst \<Rightarrow> kst res" where
  "free_desc i s =
    (if i \<ge> NUM then Panic ''free_desc 1''
     else if v_free (vd s) i then Panic ''free_desc 2''
     else wakeup (Some ChDisk) (upd_vd (\<lambda>v. (upd_desc i (\<lambda>_.
       \<lparr>d_addr = ANull, d_len = 0, d_flags = 0, d_next = 0\<rparr>) v)\<lparr>v_free := (v_free v)(i := True)\<rparr>) s))"

text \<open>
  A chain ends at a descriptor without the next flag; \<open>n\<close> bounds its length, and \<open>free_desc\<close> panics
  before a chain that loops is followed for the second time.
\<close>

primrec free_chain :: "nat \<Rightarrow> nat \<Rightarrow> kst \<Rightarrow> kst res" where
  "free_chain 0 i s = Spins"
| "free_chain (Suc n) i s =
    (if i \<ge> NUM then Undef
     else
       let flag = d_flags (v_desc (vd s) i); nxt = d_next (v_desc (vd s) i)
       in kbind (free_desc i s) (\<lambda>s.
          if flag AND VRING_DESC_F_NEXT \<noteq> 0 then free_chain n (unat nxt) s else Ok s))"

definition alloc3_desc :: "kst \<Rightarrow> ((nat \<times> nat \<times> nat) option \<times> kst) res" where
  "alloc3_desc s =
    (case alloc_desc s of (None, s) \<Rightarrow> Ok (None, s)
     | (Some a, s) \<Rightarrow> (case alloc_desc s of
         (None, s) \<Rightarrow> kbind (free_desc a s) (\<lambda>s. Ok (None, s))
       | (Some b, s) \<Rightarrow> (case alloc_desc s of
           (None, s) \<Rightarrow> kbind (free_desc a s) (\<lambda>s. kbind (free_desc b s) (\<lambda>s. Ok (None, s)))
         | (Some c, s) \<Rightarrow> Ok (Some (a, b, c), s))))"

definition alloc3_iter :: "kst \<Rightarrow> (kst, (nat \<times> nat \<times> nat) option) run" where
  "alloc3_iter s =
    rbind (lift (alloc3_desc s)) (\<lambda>r s.
    case r of Some idx \<Rightarrow> Done (Some idx) s
    | None \<Rightarrow> rbind (sleep ChDisk VdiskLock s) (\<lambda>_. Done None))"

text \<open>The three descriptors of a request and its entry in the available ring.\<close>

definition format_request :: "nat \<Rightarrow> bool \<Rightarrow> nat \<times> nat \<times> nat \<Rightarrow> u64 \<Rightarrow> vdisk \<Rightarrow> vdisk" where
  "format_request b wr idx sector v =
    (case idx of (i0, i1, i2) \<Rightarrow>
     let v = v\<lparr>v_ops := (v_ops v)(i0 := (if wr then VIRTIO_BLK_T_OUT else VIRTIO_BLK_T_IN, sector))\<rparr>;
         v = upd_desc i0 (\<lambda>_. \<lparr>d_addr = AOps i0, d_len = 16, d_flags = VRING_DESC_F_NEXT, d_next = of_nat i1\<rparr>) v;
         v = upd_desc i1 (\<lambda>_. \<lparr>d_addr = AData b, d_len = of_nat BSIZE,
               d_flags = (if wr then 0 else VRING_DESC_F_WRITE) OR VRING_DESC_F_NEXT, d_next = of_nat i2\<rparr>) v;
         v = v\<lparr>v_info_status := (v_info_status v)(i0 := 0xff)\<rparr>;
         v = upd_desc i2 (\<lambda>_. \<lparr>d_addr = AStatus i0, d_len = 1, d_flags = VRING_DESC_F_WRITE, d_next = 0\<rparr>) v;
         v = v\<lparr>v_info_b := (v_info_b v)(i0 := Some b)\<rparr>
     in v\<lparr>v_avail_ring := (v_avail_ring v)(unat (v_avail_idx v) mod NUM := of_nat i0),
          v_avail_idx := v_avail_idx v + 1\<rparr>)"

definition disk_wait_iter :: "nat \<Rightarrow> kst \<Rightarrow> (kst, unit option) run" where
  "disk_wait_iter b s =
    (if b_disk (bufs (fs s) b) = 1 then rbind (sleep (ChBuf b) VdiskLock s) (\<lambda>_. Done None)
     else Done (Some ()) s)"

definition virtio_disk_rw :: "nat \<Rightarrow> bool \<Rightarrow> kst \<Rightarrow> (kst, unit) run" where
  "virtio_disk_rw b wr s =
    (let sector = (ucast (b_blockno (bufs (fs s) b) * 2) :: u64)
     in rbind (lift0 (kacquire VdiskLock s)) (\<lambda>_ s.
        rbind (rloop alloc3_iter s) (\<lambda>idx s.
        let s = upd_vd (format_request b wr idx sector) (upd_buf b (b_disk_update (\<lambda>_. 1)) s)
        in rbind (rloop (disk_wait_iter b) s) (\<lambda>_ s.
           rbind (lift0 (free_chain (NUM + 1) (fst idx)
               (upd_vd (\<lambda>v. v\<lparr>v_info_b := (v_info_b v)(fst idx := None)\<rparr>) s))) (\<lambda>_ s.
           lift0 (krelease VdiskLock s))))))"

text \<open>The loop of the interrupt handler over the used ring; \<open>n\<close> bounds the new entries.\<close>

primrec used_loop :: "nat \<Rightarrow> kst \<Rightarrow> kst res" where
  "used_loop 0 s = (if v_used_idx (vd s) = v_used_dev_idx (vd s) then Ok s else Spins)"
| "used_loop (Suc n) s =
    (if v_used_idx (vd s) = v_used_dev_idx (vd s) then Ok s
     else
       let i = unat (v_used_ring (vd s) (unat (v_used_idx (vd s)) mod NUM))
       in if i \<ge> NUM then Undef
          else if v_info_status (vd s) i \<noteq> 0 then Panic ''virtio_disk_intr status''
          else deref (v_info_b (vd s) i) (\<lambda>b.
            kbind (wakeup (Some (ChBuf b)) (upd_buf b (b_disk_update (\<lambda>_. 0)) s)) (\<lambda>s.
            used_loop n (upd_vd (\<lambda>v. v\<lparr>v_used_idx := v_used_idx v + 1\<rparr>) s))))"

definition virtio_disk_intr :: "kst \<Rightarrow> kst res" where
  "virtio_disk_intr s =
    kbind (kacquire VdiskLock s) (\<lambda>s.
    kbind (used_loop 65536 s) (\<lambda>s. krelease VdiskLock s))"

section \<open>Initialisation\<close>

text \<open>
  \<open>reads\<close> gives what the device answers at each of its registers, \<open>pages\<close> is the address of
  the queue; the result is the sequence of register writes, in order.
\<close>

definition virtio_disk_init :: "(u64 \<Rightarrow> u32) \<Rightarrow> u64 \<Rightarrow> kst \<Rightarrow> ((u64 \<times> u32) list \<times> kst) res" where
  "virtio_disk_init reads pages s =
    (let s = s\<lparr>mach := initlock VdiskLock ''virtio_disk'' (mach s)\<rparr>
     in if reads 0x000 \<noteq> 0x74726976 \<or> reads 0x004 \<noteq> 1 \<or> reads 0x008 \<noteq> 2 \<or> reads 0x00c \<noteq> 0x554d4551
        then Panic ''could not find virtio disk''
        else
          let features = reads 0x010 AND NOT (push_bit 5 1) AND NOT (push_bit 7 1) AND NOT (push_bit 11 1)
                AND NOT (push_bit 12 1) AND NOT (push_bit 27 1) AND NOT (push_bit 29 1) AND NOT (push_bit 28 1)
          in if reads 0x034 = 0 then Panic ''virtio disk has no queue 0''
             else if reads 0x034 < of_nat NUM then Panic ''virtio disk max queue too short''
             else Ok ([(0x070, 1), (0x070, 1 OR 2), (0x020, features), (0x070, 1 OR 2 OR 8),
                  (0x070, 1 OR 2 OR 8 OR 4), (0x028, 4096), (0x030, 0), (0x038, of_nat NUM),
                  (0x040, ucast (drop_bit 12 pages))],
                upd_vd (\<lambda>v. v\<lparr>v_desc := (\<lambda>_. \<lparr>d_addr = ANull, d_len = 0, d_flags = 0, d_next = 0\<rparr>),
                  v_avail_idx := 0, v_avail_ring := (\<lambda>_. 0), v_used_dev_idx := 0, v_used_ring := (\<lambda>_. 0),
                  v_free := (\<lambda>i. if i < NUM then True else v_free v i)\<rparr>) s))"

end
