(* ===== verification/Bio.thy ===== *)
theory Bio
  imports Virtio
begin

text \<open>
  Kernel/bio.c: the cache of disk blocks.  The buffers are on a doubly linked list, most recently
  used first; the list is kept in the next and prev fields, as in the code.  A walk of the list visits at
  most the buffers there are: the fuel \<open>NBUF + 1\<close> is enough on a list that holds each buffer once.
\<close>

abbreviation NBUF :: nat where "NBUF \<equiv> 30"

abbreviation bf :: "kst \<Rightarrow> nat \<Rightarrow> buf" where "bf s i \<equiv> bufs (fs s) i"

section \<open>The list\<close>

fun bnext :: "fsys \<Rightarrow> bnode \<Rightarrow> bnode" where
  "bnext x BHead = bc_next x"
| "bnext x (BBuf i) = b_next (bufs x i)"

fun bprev :: "fsys \<Rightarrow> bnode \<Rightarrow> bnode" where
  "bprev x BHead = bc_prev x"
| "bprev x (BBuf i) = b_prev (bufs x i)"

fun set_bnext :: "bnode \<Rightarrow> bnode \<Rightarrow> fsys \<Rightarrow> fsys" where
  "set_bnext BHead v x = x\<lparr>bc_next := v\<rparr>"
| "set_bnext (BBuf i) v x = x\<lparr>bufs := (bufs x)(i := (bufs x i)\<lparr>b_next := v\<rparr>)\<rparr>"

fun set_bprev :: "bnode \<Rightarrow> bnode \<Rightarrow> fsys \<Rightarrow> fsys" where
  "set_bprev BHead v x = x\<lparr>bc_prev := v\<rparr>"
| "set_bprev (BBuf i) v x = x\<lparr>bufs := (bufs x)(i := (bufs x i)\<lparr>b_prev := v\<rparr>)\<rparr>"

text \<open>Insertion at the head of the list, the last four assignments of \<open>brelse\<close> and the body of \<open>binit\<close>.\<close>

definition link_front :: "bnode \<Rightarrow> fsys \<Rightarrow> fsys" where
  "link_front b x =
    (let x = set_bnext b (bc_next x) x;
         x = set_bprev b BHead x;
         x = set_bprev (bnext x BHead) b x
     in set_bnext BHead b x)"

definition unlink :: "bnode \<Rightarrow> fsys \<Rightarrow> fsys" where
  "unlink b x =
    (let x = set_bprev (bnext x b) (bprev x b) x
     in set_bnext (bprev x b) (bnext x b) x)"

definition binit :: "kst \<Rightarrow> kst" where
  "binit s =
    (let s = s\<lparr>mach := initlock BcacheLock ''bcache'' (mach s)\<rparr>;
         s = upd_fs (\<lambda>x. x\<lparr>bc_prev := BHead, bc_next := BHead\<rparr>) s
     in fold (\<lambda>b s. upd_fs (\<lambda>x. set_bnext BHead (BBuf b) (set_bprev (bnext x BHead) (BBuf b) x))
           (initsleeplock (BufLock b) (upd_fs (\<lambda>x. set_bprev (BBuf b) BHead (set_bnext (BBuf b) (bc_next x) x)) s)))
          [0..<NBUF] s)"

section \<open>Getting and releasing buffers\<close>

primrec bscan_fwd :: "nat \<Rightarrow> (buf \<Rightarrow> bool) \<Rightarrow> fsys \<Rightarrow> bnode \<Rightarrow> nat option res" where
  "bscan_fwd 0 P x b = Spins"
| "bscan_fwd (Suc n) P x b =
    (case b of BHead \<Rightarrow> Ok None
     | BBuf i \<Rightarrow> if P (bufs x i) then Ok (Some i) else bscan_fwd n P x (b_next (bufs x i)))"

primrec bscan_bwd :: "nat \<Rightarrow> (buf \<Rightarrow> bool) \<Rightarrow> fsys \<Rightarrow> bnode \<Rightarrow> nat option res" where
  "bscan_bwd 0 P x b = Spins"
| "bscan_bwd (Suc n) P x b =
    (case b of BHead \<Rightarrow> Ok None
     | BBuf i \<Rightarrow> if P (bufs x i) then Ok (Some i) else bscan_bwd n P x (b_prev (bufs x i)))"

text \<open>\<open>bget\<close> up to the release of the cache's lock: the buffer, with its reference counted.\<close>

definition bget_find :: "u32 \<Rightarrow> u32 \<Rightarrow> kst \<Rightarrow> (nat \<times> kst) res" where
  "bget_find dev blockno s =
    kbind (bscan_fwd (NBUF + 1) (\<lambda>b. b_dev b = dev \<and> b_blockno b = blockno) (fs s) (bc_next (fs s))) (\<lambda>r.
    case r of Some i \<Rightarrow> Ok (i, upd_buf i (\<lambda>b. b\<lparr>b_refcnt := b_refcnt b + 1\<rparr>) s)
    | None \<Rightarrow>
      kbind (bscan_bwd (NBUF + 1) (\<lambda>b. b_refcnt b = 0) (fs s) (bc_prev (fs s))) (\<lambda>r.
      case r of
        Some i \<Rightarrow> Ok (i, upd_buf i (\<lambda>b. b\<lparr>b_dev := dev, b_blockno := blockno, b_valid := 0, b_refcnt := 1\<rparr>) s)
      | None \<Rightarrow> Panic ''bget: no buffers''))"

definition bget :: "u32 \<Rightarrow> u32 \<Rightarrow> kst \<Rightarrow> (kst, nat) run" where
  "bget dev blockno s =
    rbind (lift0 (kacquire BcacheLock s)) (\<lambda>_ s.
    rbind (lift (bget_find dev blockno s)) (\<lambda>b s.
    rbind (lift0 (krelease BcacheLock s)) (\<lambda>_ s.
    rbind (acquiresleep (BufLock b) s) (\<lambda>_ s. Done b s))))"

definition bread :: "u32 \<Rightarrow> u32 \<Rightarrow> kst \<Rightarrow> (kst, nat) run" where
  "bread dev blockno s =
    rbind (bget dev blockno s) (\<lambda>b s.
    if b_valid (bf s b) = 0 then
      rbind (virtio_disk_rw b False s) (\<lambda>_ s. Done b (upd_buf b (b_valid_update (\<lambda>_. 1)) s))
    else Done b s)"

definition bwrite :: "nat \<Rightarrow> kst \<Rightarrow> (kst, unit) run" where
  "bwrite b s =
    rbind (lift (holdingsleep (BufLock b) s)) (\<lambda>r s.
    if \<not> r then Fail (FPanic ''bwrite'') else virtio_disk_rw b True s)"

definition brelse :: "nat \<Rightarrow> kst \<Rightarrow> kst res" where
  "brelse b s =
    kbind (holdingsleep (BufLock b) s) (\<lambda>(r, s).
    if \<not> r then Panic ''brelse''
    else
      kbind (releasesleep (BufLock b) s) (\<lambda>s.
      kbind (kacquire BcacheLock s) (\<lambda>s.
      let s = upd_buf b (\<lambda>x. x\<lparr>b_refcnt := b_refcnt x - 1\<rparr>) s
      in krelease BcacheLock
           (if b_refcnt (bf s b) = 0 then upd_fs (\<lambda>x. link_front (BBuf b) (unlink (BBuf b) x)) s else s))))"

definition bpin :: "nat \<Rightarrow> kst \<Rightarrow> kst res" where
  "bpin b s =
    kbind (kacquire BcacheLock s) (\<lambda>s.
    krelease BcacheLock (upd_buf b (\<lambda>x. x\<lparr>b_refcnt := b_refcnt x + 1\<rparr>) s))"

definition bunpin :: "nat \<Rightarrow> kst \<Rightarrow> kst res" where
  "bunpin b s =
    kbind (kacquire BcacheLock s) (\<lambda>s.
    krelease BcacheLock (upd_buf b (\<lambda>x. x\<lparr>b_refcnt := b_refcnt x - 1\<rparr>) s))"

end
