(* ===== verification/Log.thy ===== *)
theory Log
  imports Bio
begin

text \<open>
  Kernel/log.c: the redo log.  File-system calls run between \<open>begin_op\<close> and \<open>end_op\<close>; the last one
  to end commits: it copies the changed blocks to the log, writes the header, which is the commit
  point, installs the blocks at home and clears the header.  \<open>recover_from_log\<close> repeats the installation
  after a crash.
\<close>

abbreviation LOGSIZE :: nat where "LOGSIZE \<equiv> 30"
abbreviation MAXOPBLOCKS :: i32 where "MAXOPBLOCKS \<equiv> 10"

abbreviation lg :: "kst \<Rightarrow> logst" where "lg s \<equiv> log (fs s)"

definition upd_log :: "(logst \<Rightarrow> logst) \<Rightarrow> kst \<Rightarrow> kst" where
  "upd_log f s = upd_fs (\<lambda>x. x\<lparr>log := f (log x)\<rparr>) s"

section \<open>Integers in blocks\<close>

definition splice :: "nat \<Rightarrow> u8 list \<Rightarrow> u8 list \<Rightarrow> u8 list" where
  "splice off bs data = take off data @ bs @ drop (off + length bs) data"

definition get_u32 :: "nat \<Rightarrow> u8 list \<Rightarrow> u32" where
  "get_u32 off data = le_word (take 4 (drop off data))"

definition set_u32 :: "nat \<Rightarrow> u32 \<Rightarrow> u8 list \<Rightarrow> u8 list" where
  "set_u32 off v data = splice off (le_bytes 4 v) data"

section \<open>Moving blocks\<close>

text \<open>
  The loops over the header's blocks test \<open>tail < log.lh.n\<close> each time; they would read past
  the array after \<open>LOGSIZE\<close> of them.
\<close>

primrec log_for :: "(nat \<Rightarrow> kst \<Rightarrow> (kst, unit) run) \<Rightarrow> nat list \<Rightarrow> kst \<Rightarrow> (kst, unit) run" where
  "log_for f [] s = (if int LOGSIZE < sint (lh_n (lg s)) then Fail FUndef else Done () s)"
| "log_for f (i # is) s =
    (if int i < sint (lh_n (lg s)) then rbind (f i s) (\<lambda>_. log_for f is) else Done () s)"

definition log_block :: "nat \<Rightarrow> kst \<Rightarrow> u32" where
  "log_block tail s = l_start (lg s) + of_nat tail + 1"

definition install_one :: "bool \<Rightarrow> nat \<Rightarrow> kst \<Rightarrow> (kst, unit) run" where
  "install_one recovering tail s =
    rbind (bread (l_dev (lg s)) (log_block tail s) s) (\<lambda>lbuf s.
    rbind (bread (l_dev (lg s)) (lh_block (lg s) tail) s) (\<lambda>dbuf s.
    rbind (bwrite dbuf (upd_buf dbuf (b_data_update (\<lambda>_. b_data (bf s lbuf))) s)) (\<lambda>_ s.
    rbind (lift0 (if recovering then Ok s else bunpin dbuf s)) (\<lambda>_ s.
    rbind (lift0 (brelse lbuf s)) (\<lambda>_ s.
    lift0 (brelse dbuf s))))))"

definition install_trans :: "bool \<Rightarrow> kst \<Rightarrow> (kst, unit) run" where
  "install_trans recovering s = log_for (install_one recovering) [0..<LOGSIZE] s"

text \<open>The header as its block holds it: the count, then the numbers of the logged blocks.\<close>

definition load_head :: "u8 list \<Rightarrow> logst \<Rightarrow> logst" where
  "load_head data l =
    (let n = get_u32 0 data
     in l\<lparr>lh_n := n, lh_block := (\<lambda>i. if int i < sint n then get_u32 (4 + 4 * i) data else lh_block l i)\<rparr>)"

definition read_head :: "kst \<Rightarrow> (kst, unit) run" where
  "read_head s =
    rbind (bread (l_dev (lg s)) (l_start (lg s)) s) (\<lambda>b s.
    if int LOGSIZE < sint (get_u32 0 (b_data (bf s b))) then Fail FUndef
    else lift0 (brelse b (upd_log (load_head (b_data (bf s b))) s)))"

definition head_bytes :: "logst \<Rightarrow> u8 list \<Rightarrow> u8 list" where
  "head_bytes l data =
    fold (\<lambda>i d. if int i < sint (lh_n l) then set_u32 (4 + 4 * i) (lh_block l i) d else d) [0..<LOGSIZE]
      (set_u32 0 (lh_n l) data)"

definition write_head :: "kst \<Rightarrow> (kst, unit) run" where
  "write_head s =
    rbind (bread (l_dev (lg s)) (l_start (lg s)) s) (\<lambda>b s.
    if int LOGSIZE < sint (lh_n (lg s)) then Fail FUndef
    else
      rbind (bwrite b (upd_buf b (b_data_update (head_bytes (lg s))) s)) (\<lambda>_ s.
      lift0 (brelse b s)))"

definition recover_from_log :: "kst \<Rightarrow> (kst, unit) run" where
  "recover_from_log s =
    rbind (read_head s) (\<lambda>_ s.
    rbind (install_trans True s) (\<lambda>_ s.
    write_head (upd_log (lh_n_update (\<lambda>_. 0)) s)))"

text \<open>sizeof(struct logheader) is 124, so the first test of \<open>initlog\<close> never panics.\<close>

definition initlog :: "i32 \<Rightarrow> superblock \<Rightarrow> kst \<Rightarrow> (kst, unit) run" where
  "initlog dev sb s =
    (if 4 + 4 * LOGSIZE \<ge> BSIZE then Fail (FPanic ''initlog: too big logheader'')
     else
       let s = s\<lparr>mach := initlock LogLock ''log'' (mach s)\<rparr>
       in recover_from_log (upd_log (\<lambda>l. l\<lparr>l_start := sb_logstart sb, l_size := sb_nlog sb, l_dev := dev\<rparr>) s))"

section \<open>Operations\<close>

definition begin_op_iter :: "kst \<Rightarrow> (kst, unit option) run" where
  "begin_op_iter s =
    (if l_committing (lg s) \<noteq> 0 then rbind (sleep ChLog LogLock s) (\<lambda>_. Done None)
     else if sint (lh_n (lg s) + (l_outstanding (lg s) + 1) * MAXOPBLOCKS) > int LOGSIZE then
       rbind (sleep ChLog LogLock s) (\<lambda>_. Done None)
     else
       rbind (lift0 (krelease LogLock (upd_log (\<lambda>l. l\<lparr>l_outstanding := l_outstanding l + 1\<rparr>) s)))
         (\<lambda>_. Done (Some ())))"

definition begin_op :: "kst \<Rightarrow> (kst, unit) run" where
  "begin_op s = rbind (lift0 (kacquire LogLock s)) (\<lambda>_ s. rloop begin_op_iter s)"

definition write_log_one :: "nat \<Rightarrow> kst \<Rightarrow> (kst, unit) run" where
  "write_log_one tail s =
    rbind (bread (l_dev (lg s)) (log_block tail s) s) (\<lambda>to s.
    rbind (bread (l_dev (lg s)) (lh_block (lg s) tail) s) (\<lambda>from s.
    rbind (bwrite to (upd_buf to (b_data_update (\<lambda>_. b_data (bf s from))) s)) (\<lambda>_ s.
    rbind (lift0 (brelse from s)) (\<lambda>_ s.
    lift0 (brelse to s)))))"

definition write_log :: "kst \<Rightarrow> (kst, unit) run" where
  "write_log s = log_for write_log_one [0..<LOGSIZE] s"

definition commit :: "kst \<Rightarrow> (kst, unit) run" where
  "commit s =
    (if 0 < sint (lh_n (lg s)) then
       rbind (write_log s) (\<lambda>_ s.
       rbind (write_head s) (\<lambda>_ s.
       rbind (install_trans False s) (\<lambda>_ s.
       write_head (upd_log (lh_n_update (\<lambda>_. 0)) s))))
     else Done () s)"

definition end_op :: "kst \<Rightarrow> (kst, unit) run" where
  "end_op s =
    rbind (lift0 (kacquire LogLock s)) (\<lambda>_ s.
    let s = upd_log (\<lambda>l. l\<lparr>l_outstanding := l_outstanding l - 1\<rparr>) s
    in if l_committing (lg s) \<noteq> 0 then Fail (FPanic ''log.committing'')
       else
         let do_commit = (l_outstanding (lg s) = 0)
         in rbind (lift0 (if do_commit then Ok (upd_log (l_committing_update (\<lambda>_. 1)) s)
                          else wakeup (Some ChLog) s)) (\<lambda>_ s.
            rbind (lift0 (krelease LogLock s)) (\<lambda>_ s.
            if do_commit then
              rbind (commit s) (\<lambda>_ s.
              rbind (lift0 (kacquire LogLock s)) (\<lambda>_ s.
              rbind (lift0 (wakeup (Some ChLog) (upd_log (l_committing_update (\<lambda>_. 0)) s))) (\<lambda>_ s.
              lift0 (krelease LogLock s))))
            else Done () s)))"

definition log_write :: "nat \<Rightarrow> kst \<Rightarrow> kst res" where
  "log_write b s =
    kbind (kacquire LogLock s) (\<lambda>s.
    let n = lh_n (lg s)
    in if sint n \<ge> int LOGSIZE \<or> sint n \<ge> sint (l_size (lg s) - 1) then Panic ''too big a transaction''
       else if sint (l_outstanding (lg s)) < 1 then Panic ''log_write outside of trans''
       else
         let i = (case find (\<lambda>i. lh_block (lg s) i = b_blockno (bf s b)) [0..<nat (sint n)] of
                    Some i \<Rightarrow> i | None \<Rightarrow> nat (sint n));
             s = upd_log (\<lambda>l. l\<lparr>lh_block := (lh_block l)(i := b_blockno (bf s b))\<rparr>) s
         in kbind (if int i = sint n then
                     kbind (bpin b s) (\<lambda>s. Ok (upd_log (\<lambda>l. l\<lparr>lh_n := lh_n l + 1\<rparr>) s))
                   else Ok s) (\<lambda>s. krelease LogLock s))"

end
