(* ===== verification/Procs.thy ===== *)
theory Procs
  imports Sched
begin

text \<open>
  The process and thread tables of kernel/proc.c: allocating and freeing processes and threads,
  the user page table of a process, kernel threads and their join, growing memory, and waiting for
  children.  The recursion of \<open>uvmfree\<close> is bounded by the three levels of a page table.
\<close>

unbundle bit_operations_syntax

section \<open>Tables and identifiers\<close>

definition procinit :: "kst \<Rightarrow> kst" where
  "procinit s =
    (let s = s\<lparr>bsems := (\<lambda>i. if i < MAX_BSEM then (bsems s i)\<lparr>bs_descriptor := - 1\<rparr> else bsems s i)\<rparr>;
         m = initlock PidLock ''nextpid'' (mach s);
         m = initlock TidLock ''nexttid'' m;
         m = initlock WaitLock ''wait_lock'' m;
         m = initlock BsemTableLock ''binary_semaphores_lock'' m
     in fold (\<lambda>p s. upd_thr (p, 0) (t_kstack_update (\<lambda>_. KSTACK p))
                (s\<lparr>mach := initlock (ProcLock p) ''proc'' (mach s)\<rparr>))
          [0..<NPROC] (s\<lparr>mach := m\<rparr>))"

definition allocpid :: "kst \<Rightarrow> (i32 \<times> kst) res" where
  "allocpid s =
    kbind (kacquire PidLock s) (\<lambda>s.
    let pid = nextpid s
    in kbind (krelease PidLock (s\<lparr>nextpid := nextpid s + 1\<rparr>)) (\<lambda>s. Ok (pid, s)))"

definition alloctid :: "kst \<Rightarrow> (i32 \<times> kst) res" where
  "alloctid s =
    kbind (kacquire TidLock s) (\<lambda>s.
    let tid = nexttid s
    in kbind (krelease TidLock (s\<lparr>nexttid := nexttid s + 1\<rparr>)) (\<lambda>s. Ok (tid, s)))"

section \<open>Threads\<close>

text \<open>
  \<open>t != t->my_p->threads\<close> compares addresses: it holds when the thread is not the first of its
  process, and also when \<open>my_p\<close> is null.
\<close>

definition freethread :: "nat \<times> nat \<Rightarrow> kst \<Rightarrow> kst res" where
  "freethread t s =
    kbind (if t_my_p (thr s t) = None \<or> t \<noteq> (the (t_my_p (thr s t)), 0) then
             kbind (if t_kstack (thr s t) \<noteq> 0 then mcall (\<lambda>h. kfree h (t_kstack (thr s t))) s else Ok s)
               (\<lambda>s. Ok (upd_thr t (t_kstack_update (\<lambda>_. 0)) s))
           else Ok s) (\<lambda>s.
    kbind (if t_backup (thr s t) \<noteq> 0 then mcall (\<lambda>h. kfree h (t_backup (thr s t))) s else Ok s) (\<lambda>s.
    Ok (upd_thr t (\<lambda>x. x\<lparr>t_backup := 0, t_tid := 0, t_name := [], t_chan := None, t_killed := 0,
      t_xstate := 0, t_state := T_UNUSED, t_my_p := None\<rparr>) s)))"

definition allocthread_fail :: "nat \<Rightarrow> nat \<times> nat \<Rightarrow> kst \<Rightarrow> ((nat \<times> nat) option \<times> kst) res" where
  "allocthread_fail p t s =
    kbind (freethread t s) (\<lambda>s. kbind (krelease (ProcLock p) s) (\<lambda>s. Ok (None, s)))"

definition allocthread :: "nat \<Rightarrow> kst \<Rightarrow> ((nat \<times> nat) option \<times> kst) res" where
  "allocthread p s =
    (case find (\<lambda>j. t_state (thr s (p, j)) = T_UNUSED \<or> t_state (thr s (p, j)) = T_ZOMBIE) [0..<NTHREAD] of
       None \<Rightarrow> kbind (krelease (ProcLock p) s) (\<lambda>s. Ok (None, s))
     | Some j \<Rightarrow>
       kbind (if t_state (thr s (p, j)) = T_UNUSED then Ok s else freethread (p, j) s) (\<lambda>s.
       kbind (if j \<noteq> 0 then
                kbind (mget kalloc s) (\<lambda>(k, s). Ok (k \<noteq> 0, upd_thr (p, j) (t_kstack_update (\<lambda>_. k)) s))
              else Ok (True, s)) (\<lambda>(ok, s).
       if \<not> ok then allocthread_fail p (p, j) s
       else kbind (alloctid s) (\<lambda>(tid, s).
         kbind (mget kalloc (upd_thr (p, j) (\<lambda>x. x\<lparr>t_tid := tid, t_state := T_USED, t_my_p := Some p\<rparr>) s))
           (\<lambda>(b, s).
         let s = upd_thr (p, j) (t_backup_update (\<lambda>_. b)) s
         in if b = 0 then allocthread_fail p (p, j) s
            else Ok (Some (p, j), upd_thr (p, j) (\<lambda>x. x\<lparr>t_context :=
              \<lparr>ctx_ra = sym_forkret s, ctx_sp = t_kstack x + PGSIZE, ctx_s = (\<lambda>_. 0)\<rparr>\<rparr>) s))))))"

section \<open>Page tables of processes\<close>

definition proc_pagetable :: "nat \<Rightarrow> kst \<Rightarrow> (u64 \<times> kst) res" where
  "proc_pagetable p s =
    kbind (mget uvmcreate s) (\<lambda>(pagetable, s).
    if pagetable = 0 then Ok (0, s)
    else kbind (mget (\<lambda>h. mappages h pagetable TRAMPOLINE PGSIZE (sym_trampoline s) (PTE_R OR PTE_X)) s) (\<lambda>(r, s).
      if slt r 0 then kbind (mcall (\<lambda>h. uvmfree 3 h pagetable 0) s) (\<lambda>s. Ok (0, s))
      else kbind (mget (\<lambda>h. mappages h pagetable TRAPFRAME PGSIZE (t_trapframe (thr s (p, 0)))
                     (PTE_R OR PTE_W)) s) (\<lambda>(r, s).
        if slt r 0 then
          kbind (mcall (\<lambda>h. uvmunmap h pagetable TRAMPOLINE 1 False) s) (\<lambda>s.
          kbind (mcall (\<lambda>h. uvmfree 3 h pagetable 0) s) (\<lambda>s. Ok (0, s)))
        else Ok (pagetable, s))))"

definition proc_freepagetable :: "u64 \<Rightarrow> u64 \<Rightarrow> kst \<Rightarrow> kst res" where
  "proc_freepagetable pagetable sz s =
    kbind (mcall (\<lambda>h. uvmunmap h pagetable TRAMPOLINE 1 False) s) (\<lambda>s.
    kbind (mcall (\<lambda>h. uvmunmap h pagetable TRAPFRAME 1 False) s) (\<lambda>s.
    mcall (\<lambda>h. uvmfree 3 h pagetable sz) s))"

section \<open>Processes\<close>

definition freeproc :: "nat \<Rightarrow> kst \<Rightarrow> kst res" where
  "freeproc p s =
    kbind (if t_trapframe (thr s (p, 0)) \<noteq> 0 then mcall (\<lambda>h. kfree h (t_trapframe (thr s (p, 0)))) s
           else Ok s) (\<lambda>s.
    kbind (kfor (\<lambda>j s. if t_state (thr s (p, j)) \<noteq> T_UNUSED then freethread (p, j) s else Ok s) [0..<NTHREAD]
             (upd_thr (p, 0) (t_trapframe_update (\<lambda>_. 0)) s)) (\<lambda>s.
    kbind (if p_pagetable (procs s p) \<noteq> 0 then
             proc_freepagetable (p_pagetable (procs s p)) (p_sz (procs s p)) s else Ok s) (\<lambda>s.
    Ok (upd_proc p (\<lambda>q. q\<lparr>p_pagetable := 0, p_sz := 0, p_pid := 0, p_parent := None, p_name := [],
      p_killed := 0, p_xstate := 0, p_state := UNUSED, p_pending := 0, p_mask := 0, p_mask_backup := 0,
      p_counter := 0, p_handling := 0,
      p_handlers := (\<lambda>i. if i < 32 then SIG_DFL else p_handlers q i),
      p_masks := (\<lambda>i. if i < 32 then 0 else p_masks q i), p_stopped := 0\<rparr>) s))))"

text \<open>The search of \<open>allocproc\<close>: the first unused process, with its lock held.\<close>

primrec allocproc_scan :: "nat list \<Rightarrow> kst \<Rightarrow> (nat option \<times> kst) res" where
  "allocproc_scan [] s = Ok (None, s)"
| "allocproc_scan (p # ps) s =
    kbind (kacquire (ProcLock p) s) (\<lambda>s.
    if p_state (procs s p) = UNUSED then Ok (Some p, s)
    else kbind (krelease (ProcLock p) s) (allocproc_scan ps))"

definition allocproc_fail :: "nat \<Rightarrow> kst \<Rightarrow> (nat option \<times> kst) res" where
  "allocproc_fail p s = kbind (freeproc p s) (\<lambda>s. kbind (krelease (ProcLock p) s) (\<lambda>s. Ok (None, s)))"

definition allocproc :: "kst \<Rightarrow> (nat option \<times> kst) res" where
  "allocproc s =
    kbind (allocproc_scan [0..<NPROC] s) (\<lambda>(r, s).
    case r of None \<Rightarrow> Ok (None, s)
    | Some p \<Rightarrow>
      kbind (allocpid s) (\<lambda>(pid, s).
      let s = upd_proc p (\<lambda>q. q\<lparr>p_pid := pid, p_state := USED, p_pending := 0, p_mask := 0, p_stopped := 0,
            p_handling := 0, p_counter := 0,
            p_handlers := (\<lambda>i. if i < 32 then SIG_DFL else p_handlers q i),
            p_masks := (\<lambda>i. if i < 32 then - 1 else p_masks q i),
            p_threads := (\<lambda>j. if j < NTHREAD then (p_threads q j)\<lparr>t_state := T_UNUSED\<rparr> else p_threads q j)\<rparr>) s
      in kbind (mget kalloc s) (\<lambda>(start, s).
         if start = 0 then allocproc_fail p s
         else
           let s = upd_proc p (\<lambda>q. q\<lparr>p_threads := (\<lambda>j. if j < NTHREAD
                 then (p_threads q j)\<lparr>t_trapframe := start + of_nat j * ucast TF_size\<rparr> else p_threads q j)\<rparr>) s
           in kbind (proc_pagetable p s) (\<lambda>(pagetable, s).
              let s = upd_proc p (p_pagetable_update (\<lambda>_. pagetable)) s
              in if pagetable = 0 then allocproc_fail p s else Ok (Some p, s)))))"

section \<open>Kernel threads\<close>

definition kthread_create :: "u64 \<Rightarrow> u64 \<Rightarrow> kst \<Rightarrow> (i32 \<times> kst) res" where
  "kthread_create start_func stack s =
    kbind (mythread s) (\<lambda>(t, s).
    kbind (myproc s) (\<lambda>(p, s).
    deref p (\<lambda>p.
    kbind (kacquire (ProcLock p) s) (\<lambda>s.
    kbind (allocthread p s) (\<lambda>(nt, s).
    case nt of None \<Rightarrow> Ok (- 1, s)
    | Some nt \<Rightarrow> deref t (\<lambda>t.
      let s = upd_mem (\<lambda>m. memmove m (t_trapframe (thr s nt)) (t_trapframe (thr s t)) TF_size) s;
          s = tf_set nt TF_epc start_func s;
          s = tf_set nt TF_sp (stack + MAX_STACK_SIZE - 16) s;
          s = upd_thr nt (t_state_update (\<lambda>_. T_RUNNABLE)) s
      in kbind (krelease (ProcLock p) s) (\<lambda>s. Ok (t_tid (thr s nt), s))))))))"

definition kthread_id :: "kst \<Rightarrow> (i32 \<times> kst) res" where
  "kthread_id s =
    kbind (mythread s) (\<lambda>(t, s).
    deref t (\<lambda>t. deref (t_my_p (thr s t)) (\<lambda>p.
    kbind (kacquire (ProcLock p) s) (\<lambda>s.
    let tid = t_tid (thr s t)
    in kbind (krelease (ProcLock p) s) (\<lambda>s. if sint tid \<le> 0 then Ok (- 1, s) else Ok (tid, s))))))"

definition alive :: "thread \<Rightarrow> bool" where
  "alive t = (t_state t = T_RUNNABLE \<or> t_state t = T_RUNNING \<or> t_state t = T_SLEEPING \<or> t_state t = T_USED)"

definition check_if_last :: "nat \<times> nat \<Rightarrow> kst \<Rightarrow> bool res" where
  "check_if_last t s =
    deref (t_my_p (thr s t)) (\<lambda>p.
    Ok (list_all (\<lambda>j. (p, j) = t \<or> \<not> alive (thr s (p, j))) [0..<NTHREAD]))"

text \<open>One iteration of the inner loop of \<open>join\<close>; \<open>Some None\<close> leaves the loop for the next thread.\<close>

definition join_wait :: "nat \<Rightarrow> nat \<times> nat \<Rightarrow> i32 \<Rightarrow> nat \<Rightarrow> kst \<Rightarrow> (kst, i32 option option) run" where
  "join_wait p t thread_id j s =
    (if t_tid (thr s (p, j)) \<noteq> thread_id then Done (Some None) s
     else if t_state (thr s (p, j)) = T_ZOMBIE then
       rbind (lift0 (freethread (p, j) s)) (\<lambda>_ s.
       rbind (lift0 (krelease (ProcLock p) s)) (\<lambda>_ s.
       rbind (lift0 (krelease WaitLock s)) (\<lambda>_ s.
       Done (Some (Some (t_xstate (thr s (p, j))))) s)))
     else if t_killed (thr s t) \<noteq> 0 then
       rbind (lift0 (krelease (ProcLock p) s)) (\<lambda>_ s.
       rbind (lift0 (krelease WaitLock s)) (\<lambda>_ s. Done (Some (Some (- 199))) s))
     else
       rbind (lift0 (krelease (ProcLock p) s)) (\<lambda>_ s.
       rbind (sleep (ChThread p j) WaitLock s) (\<lambda>_ s.
       rbind (lift0 (kacquire (ProcLock p) s)) (\<lambda>_ s. Done None s))))"

primrec join_threads :: "nat \<Rightarrow> nat \<times> nat \<Rightarrow> i32 \<Rightarrow> nat list \<Rightarrow> kst \<Rightarrow> (kst, i32) run" where
  "join_threads p t thread_id [] s =
    rbind (lift0 (krelease (ProcLock p) s)) (\<lambda>_ s.
    rbind (lift0 (krelease WaitLock s)) (\<lambda>_ s. Done (- 199) s))"
| "join_threads p t thread_id (j # js) s =
    rbind (if (p, j) \<noteq> t then rloop (join_wait p t thread_id j) s else Done None s) (\<lambda>r s.
    case r of Some x \<Rightarrow> Done x s | None \<Rightarrow> join_threads p t thread_id js s)"

definition join :: "i32 \<Rightarrow> kst \<Rightarrow> (kst, i32) run" where
  "join thread_id s =
    rbind (lift (mythread s)) (\<lambda>t s. rderef t (\<lambda>t. rderef (t_my_p (thr s t)) (\<lambda>p.
    rbind (lift0 (kacquire WaitLock s)) (\<lambda>_ s.
    rbind (lift0 (kacquire (ProcLock p) s)) (\<lambda>_ s.
    join_threads p t thread_id [0..<NTHREAD] s)))))"

definition kthread_join :: "i32 \<Rightarrow> u64 \<Rightarrow> kst \<Rightarrow> (kst, i32) run" where
  "kthread_join thread_id status s =
    rbind (lift (myproc s)) (\<lambda>p s.
    rbind (join thread_id s) (\<lambda>xstate s.
    if xstate = - 199 then Done (- 1) s
    else rderef p (\<lambda>p.
      rbind (lift0 (kacquire (ProcLock p) s)) (\<lambda>_ s.
      rbind (lift (if status \<noteq> 0 then mget (\<lambda>h. copyout h (p_pagetable (procs s p)) status (le_bytes 4 xstate)) s
                   else Ok (0, s))) (\<lambda>r s.
      rbind (lift0 (krelease (ProcLock p) s)) (\<lambda>_ s.
      Done (if slt r 0 then - 1 else 0) s))))))"

section \<open>Memory size, children\<close>

text \<open>\<open>sz\<close> is a uint in \<open>growproc\<close>: sizes are cut to 32 bits on the way in and out.\<close>

definition growproc :: "i32 \<Rightarrow> kst \<Rightarrow> (i32 \<times> kst) res" where
  "growproc n s =
    kbind (myproc s) (\<lambda>(p, s). deref p (\<lambda>p.
    kbind (kacquire (ProcLock p) s) (\<lambda>s.
    let pt = p_pagetable (procs s p); sz = (ucast (p_sz (procs s p)) :: u32)
    in kbind (if slt 0 n then
                kbind (mget (\<lambda>h. uvmalloc h pt (ucast sz) (ucast (sz + n))) s)
                  (\<lambda>(r, s). let sz = (ucast r :: u32) in Ok (if sz = 0 then None else Some sz, s))
              else if slt n 0 then
                kbind (mget (\<lambda>h. uvmdealloc h pt (ucast sz) (ucast (sz + n))) s)
                  (\<lambda>(r, s). Ok (Some (ucast r), s))
              else Ok (Some sz, s)) (\<lambda>(r, s).
       case r of None \<Rightarrow> kbind (krelease (ProcLock p) s) (\<lambda>s. Ok (- 1, s))
       | Some sz \<Rightarrow>
         kbind (krelease (ProcLock p) (upd_proc p (p_sz_update (\<lambda>_. ucast sz)) s)) (\<lambda>s. Ok (0, s))))))"

definition reparent :: "nat \<Rightarrow> kst \<Rightarrow> kst res" where
  "reparent p s =
    kfor (\<lambda>pp s. if p_parent (procs s pp) = Some p then
        wakeup (map_option ChProc (initproc s)) (upd_proc pp (p_parent_update (\<lambda>_. initproc s)) s)
      else Ok s) [0..<NPROC] s"

text \<open>The first loop of \<open>kill_all_threads_besides_myself_and_wait\<close>.\<close>

definition kill_others :: "i32 \<Rightarrow> proc \<Rightarrow> proc" where
  "kill_others tid p = p\<lparr>p_threads := (\<lambda>j.
     let ot = p_threads p j
     in if j < NTHREAD \<and> t_tid ot \<noteq> tid \<and> t_tid ot \<noteq> 0 \<and> alive ot
        then ot\<lparr>t_killed := 1, t_state := if t_state ot = T_SLEEPING then T_RUNNABLE else t_state ot\<rparr>
        else ot)\<rparr>"

definition kill_all_threads_besides_myself_and_wait :: "nat \<times> nat \<Rightarrow> kst \<Rightarrow> (kst, unit) run" where
  "kill_all_threads_besides_myself_and_wait t s =
    rderef (t_my_p (thr s t)) (\<lambda>p.
    rbind (lift0 (kacquire (ProcLock p) s)) (\<lambda>_ s.
    rbind (rfor (\<lambda>j s.
        if t_tid (thr s (p, j)) \<noteq> t_tid (thr s t) \<and> t_tid (thr s (p, j)) \<noteq> 0 then
          rbind (lift0 (krelease (ProcLock p) s)) (\<lambda>_ s.
          rbind (join (t_tid (thr s (p, j))) s) (\<lambda>_ s.
          lift0 (kacquire (ProcLock p) s)))
        else Done () s) [0..<NTHREAD] (upd_proc p (kill_others (t_tid (thr s t))) s)) (\<lambda>_ s.
    lift0 (krelease (ProcLock p) s))))"

text \<open>
  One scan of \<open>wait\<close> for an exited child: the value to return, or whether there is a child at
  all.
\<close>

primrec wait_scan :: "nat \<Rightarrow> u64 \<Rightarrow> bool \<Rightarrow> nat list \<Rightarrow> kst \<Rightarrow> ((i32 option \<times> bool) \<times> kst) res" where
  "wait_scan p addr havekids [] s = Ok ((None, havekids), s)"
| "wait_scan p addr havekids (np # ps) s =
    (if p_parent (procs s np) = Some p then
       kbind (kacquire (ProcLock np) s) (\<lambda>s.
       if p_state (procs s np) = ZOMBIE then
         let pid = p_pid (procs s np)
         in kbind (if addr \<noteq> 0 then mget (\<lambda>h. copyout h (p_pagetable (procs s p)) addr
                       (le_bytes 4 (p_xstate (procs s np)))) s else Ok (0, s)) (\<lambda>(r, s).
            if slt r 0 then
              kbind (krelease (ProcLock np) s) (\<lambda>s.
              kbind (krelease WaitLock s) (\<lambda>s. Ok ((Some (- 1), True), s)))
            else
              kbind (freeproc np s) (\<lambda>s.
              kbind (krelease (ProcLock np) s) (\<lambda>s.
              kbind (krelease WaitLock s) (\<lambda>s. Ok ((Some pid, True), s)))))
       else kbind (krelease (ProcLock np) s) (wait_scan p addr True ps))
     else wait_scan p addr havekids ps s)"

definition wait_iter :: "nat \<Rightarrow> u64 \<Rightarrow> kst \<Rightarrow> (kst, i32 option) run" where
  "wait_iter p addr s =
    rbind (lift (wait_scan p addr False [0..<NPROC] s)) (\<lambda>(r, havekids) s.
    case r of Some x \<Rightarrow> Done (Some x) s
    | None \<Rightarrow>
      if \<not> havekids \<or> p_killed (procs s p) \<noteq> 0 then
        rbind (lift0 (krelease WaitLock s)) (\<lambda>_ s. Done (Some (- 1)) s)
      else rbind (sleep (ChProc p) WaitLock s) (\<lambda>_ s. Done None s))"

definition wait :: "u64 \<Rightarrow> kst \<Rightarrow> (kst, i32) run" where
  "wait addr s =
    rbind (lift (myproc s)) (\<lambda>p s. rderef p (\<lambda>p.
    rbind (lift0 (kacquire WaitLock s)) (\<lambda>_ s. rloop (wait_iter p addr) s)))"

section \<open>Copying to and from either space\<close>

definition either_copyout :: "bool \<Rightarrow> u64 \<Rightarrow> u8 list \<Rightarrow> kst \<Rightarrow> (i32 \<times> kst) res" where
  "either_copyout user_dst dst src s =
    kbind (myproc s) (\<lambda>(p, s).
    if user_dst then deref p (\<lambda>p. mget (\<lambda>h. copyout h (p_pagetable (procs s p)) dst src) s)
    else Ok (0, upd_mem (\<lambda>m. put m dst src) s))"

definition either_copyin :: "bool \<Rightarrow> u64 \<Rightarrow> nat \<Rightarrow> kst \<Rightarrow> ((i32 \<times> u8 list) \<times> kst) res" where
  "either_copyin user_src src len s =
    kbind (myproc s) (\<lambda>(p, s).
    if user_src then deref p (\<lambda>p.
      kbind (copyin (hart s) (p_pagetable (procs s p)) src len (mach s)) (\<lambda>r. Ok (r, s)))
    else Ok ((0, get (kmem s) src len), s))"

end
