(* ===== verification/Fs.thy ===== *)
theory Fs
  imports Log Procs
begin

text \<open>
  Kernel/fs.c: blocks, inodes, directories and path names.  An inode pointer is its index in the
  table; a null pointer is None.  Names and paths are the bytes before the terminator, a name at most
  \<open>DIRSIZ\<close> of them.  \<open>readi\<close> and \<open>writei\<close> move bytes to and from user addresses, kernel addresses and
  local variables of their callers; for the latter the bytes are passed themselves.
\<close>

unbundle bit_operations_syntax

abbreviation NINODE :: nat where "NINODE \<equiv> 50"
abbreviation NDIRECT :: nat where "NDIRECT \<equiv> 12"
abbreviation NINDIRECT :: nat where "NINDIRECT \<equiv> 256"
abbreviation MAXFILE :: nat where "MAXFILE \<equiv> NDIRECT + NINDIRECT"
abbreviation IPB :: nat where "IPB \<equiv> 16"
abbreviation BPB :: nat where "BPB \<equiv> 8192"
abbreviation DIRSIZ :: nat where "DIRSIZ \<equiv> 14"
abbreviation FSMAGIC :: u32 where "FSMAGIC \<equiv> 0x10203040"
abbreviation ROOTDEV :: u32 where "ROOTDEV \<equiv> 1"
abbreviation ROOTINO :: u32 where "ROOTINO \<equiv> 1"
abbreviation T_DIR :: u16 where "T_DIR \<equiv> 1"
abbreviation T_FILE :: u16 where "T_FILE \<equiv> 2"
abbreviation T_DEVICE :: u16 where "T_DEVICE \<equiv> 3"

abbreviation nd :: "kst \<Rightarrow> nat \<Rightarrow> inode" where "nd s i \<equiv> inodes (fs s) i"
abbreviation sb :: "kst \<Rightarrow> superblock" where "sb s \<equiv> sblk (fs s)"

definition get_u16 :: "nat \<Rightarrow> u8 list \<Rightarrow> u16" where
  "get_u16 off data = le_word (take 2 (drop off data))"

definition IBLOCK :: "u32 \<Rightarrow> kst \<Rightarrow> u32" where
  "IBLOCK i s = i div of_nat IPB + sb_inodestart (sb s)"

definition BBLOCK :: "u32 \<Rightarrow> kst \<Rightarrow> u32" where
  "BBLOCK b s = b div of_nat BPB + sb_bmapstart (sb s)"

section \<open>The superblock\<close>

definition sb_of_bytes :: "u8 list \<Rightarrow> superblock" where
  "sb_of_bytes d = \<lparr>sb_magic = get_u32 0 d, sb_size = get_u32 4 d, sb_nblocks = get_u32 8 d,
     sb_ninodes = get_u32 12 d, sb_nlog = get_u32 16 d, sb_logstart = get_u32 20 d,
     sb_inodestart = get_u32 24 d, sb_bmapstart = get_u32 28 d\<rparr>"

definition readsb :: "u32 \<Rightarrow> kst \<Rightarrow> (kst, unit) run" where
  "readsb dev s =
    rbind (bread dev 1 s) (\<lambda>bp s.
    lift0 (brelse bp (upd_fs (\<lambda>x. x\<lparr>sblk := sb_of_bytes (b_data (bf s bp))\<rparr>) s)))"

definition fsinit :: "u32 \<Rightarrow> kst \<Rightarrow> (kst, unit) run" where
  "fsinit dev s =
    rbind (readsb dev s) (\<lambda>_ s.
    if sb_magic (sb s) \<noteq> FSMAGIC then Fail (FPanic ''invalid file system'')
    else initlog dev (sb s) s)"

section \<open>Blocks\<close>

definition bzero :: "u32 \<Rightarrow> u32 \<Rightarrow> kst \<Rightarrow> (kst, unit) run" where
  "bzero dev bno s =
    rbind (bread dev bno s) (\<lambda>bp s.
    rbind (lift0 (log_write bp (upd_buf bp (b_data_update (\<lambda>_. replicate BSIZE 0)) s))) (\<lambda>_ s.
    lift0 (brelse bp s)))"

definition bit_clear :: "u8 list \<Rightarrow> nat \<Rightarrow> bool" where
  "bit_clear data bi = (data ! (bi div 8) AND push_bit (bi mod 8) 1 = 0)"

definition mark_used :: "nat \<Rightarrow> u8 list \<Rightarrow> u8 list" where
  "mark_used bi data = data[bi div 8 := data ! (bi div 8) OR push_bit (bi mod 8) 1]"

definition mark_free :: "nat \<Rightarrow> u8 list \<Rightarrow> u8 list" where
  "mark_free bi data = data[bi div 8 := data ! (bi div 8) AND NOT (push_bit (bi mod 8) 1)]"

primrec balloc_blocks :: "u32 \<Rightarrow> nat list \<Rightarrow> kst \<Rightarrow> (kst, u32) run" where
  "balloc_blocks dev [] s = Fail (FPanic ''balloc: out of blocks'')"
| "balloc_blocks dev (b # bs) s =
    rbind (bread dev (BBLOCK (of_nat b) s) s) (\<lambda>bp s.
    case find (\<lambda>bi. b + bi < unat (sb_size (sb s)) \<and> bit_clear (b_data (bf s bp)) bi) [0..<BPB] of
      Some bi \<Rightarrow>
        rbind (lift0 (log_write bp (upd_buf bp (b_data_update (mark_used bi)) s))) (\<lambda>_ s.
        rbind (lift0 (brelse bp s)) (\<lambda>_ s.
        rbind (bzero dev (of_nat (b + bi)) s) (\<lambda>_ s. Done (of_nat (b + bi)) s)))
    | None \<Rightarrow> rbind (lift0 (brelse bp s)) (\<lambda>_ s. balloc_blocks dev bs s))"

definition balloc :: "u32 \<Rightarrow> kst \<Rightarrow> (kst, u32) run" where
  "balloc dev s =
    balloc_blocks dev (map (\<lambda>k. k * BPB) [0..<(unat (sb_size (sb s)) + BPB - 1) div BPB]) s"

definition bfree :: "u32 \<Rightarrow> u32 \<Rightarrow> kst \<Rightarrow> (kst, unit) run" where
  "bfree dev b s =
    rbind (bread dev (BBLOCK b s) s) (\<lambda>bp s.
    let bi = unat b mod BPB
    in if bit_clear (b_data (bf s bp)) bi then Fail (FPanic ''freeing free block'')
       else
         rbind (lift0 (log_write bp (upd_buf bp (b_data_update (mark_free bi)) s))) (\<lambda>_ s.
         lift0 (brelse bp s)))"

section \<open>Inodes\<close>

definition iinit :: "kst \<Rightarrow> kst" where
  "iinit s = fold (\<lambda>i. initsleeplock (InodeLock i)) [0..<NINODE]
     (s\<lparr>mach := initlock ItableLock ''itable'' (mach s)\<rparr>)"

definition iget :: "u32 \<Rightarrow> u32 \<Rightarrow> kst \<Rightarrow> (nat \<times> kst) res" where
  "iget dev inum s =
    kbind (kacquire ItableLock s) (\<lambda>s.
    case find (\<lambda>i. 0 < sint (i_ref (nd s i)) \<and> i_dev (nd s i) = dev \<and> i_inum (nd s i) = inum) [0..<NINODE] of
      Some i \<Rightarrow>
        kbind (krelease ItableLock (upd_inode i (\<lambda>x. x\<lparr>i_ref := i_ref x + 1\<rparr>) s)) (\<lambda>s. Ok (i, s))
    | None \<Rightarrow>
        (case find (\<lambda>i. i_ref (nd s i) = 0) [0..<NINODE] of
           None \<Rightarrow> Panic ''iget: no inodes''
         | Some i \<Rightarrow>
             kbind (krelease ItableLock (upd_inode i (\<lambda>x. x\<lparr>i_dev := dev, i_inum := inum, i_ref := 1,
                i_valid := 0\<rparr>) s)) (\<lambda>s. Ok (i, s))))"

definition idup :: "nat \<Rightarrow> kst \<Rightarrow> (nat \<times> kst) res" where
  "idup ip s =
    kbind (kacquire ItableLock s) (\<lambda>s.
    kbind (krelease ItableLock (upd_inode ip (\<lambda>x. x\<lparr>i_ref := i_ref x + 1\<rparr>) s)) (\<lambda>s. Ok (ip, s)))"

text \<open>An on-disk inode in its block: fields of struct dinode at their offsets.\<close>

definition dinode_off :: "u32 \<Rightarrow> nat" where
  "dinode_off inum = unat inum mod IPB * 64"

definition dinode_bytes :: "inode \<Rightarrow> u8 list" where
  "dinode_bytes ip = le_bytes 2 (i_type ip) @ le_bytes 2 (i_major ip) @ le_bytes 2 (i_minor ip) @
     le_bytes 2 (i_nlink ip) @ le_bytes 4 (i_size ip) @ concat (map (\<lambda>i. le_bytes 4 (i_addrs ip i)) [0..<NDIRECT + 1])"

definition load_dinode :: "u8 list \<Rightarrow> inode \<Rightarrow> inode" where
  "load_dinode d ip = ip\<lparr>i_type := get_u16 0 d, i_major := get_u16 2 d, i_minor := get_u16 4 d,
     i_nlink := get_u16 6 d, i_size := get_u32 8 d,
     i_addrs := (\<lambda>i. if i < NDIRECT + 1 then get_u32 (12 + 4 * i) d else i_addrs ip i)\<rparr>"

primrec ialloc_scan :: "u32 \<Rightarrow> u16 \<Rightarrow> nat list \<Rightarrow> kst \<Rightarrow> (kst, nat) run" where
  "ialloc_scan dev type [] s = Fail (FPanic ''ialloc: no inodes'')"
| "ialloc_scan dev type (inum # is) s =
    rbind (bread dev (IBLOCK (of_nat inum) s) s) (\<lambda>bp s.
    let off = dinode_off (of_nat inum)
    in if get_u16 off (b_data (bf s bp)) = 0 then
         rbind (lift0 (log_write bp (upd_buf bp (b_data_update
             (splice off (le_bytes 2 type @ replicate 62 0))) s))) (\<lambda>_ s.
         rbind (lift0 (brelse bp s)) (\<lambda>_ s.
         lift (iget dev (of_nat inum) s)))
       else rbind (lift0 (brelse bp s)) (\<lambda>_ s. ialloc_scan dev type is s))"

definition ialloc :: "u32 \<Rightarrow> u16 \<Rightarrow> kst \<Rightarrow> (kst, nat) run" where
  "ialloc dev type s = ialloc_scan dev type [1..<unat (sb_ninodes (sb s))] s"

definition iupdate :: "nat \<Rightarrow> kst \<Rightarrow> (kst, unit) run" where
  "iupdate ip s =
    rbind (bread (i_dev (nd s ip)) (IBLOCK (i_inum (nd s ip)) s) s) (\<lambda>bp s.
    rbind (lift0 (log_write bp (upd_buf bp (b_data_update
        (splice (dinode_off (i_inum (nd s ip))) (dinode_bytes (nd s ip)))) s))) (\<lambda>_ s.
    lift0 (brelse bp s)))"

definition ilock :: "nat option \<Rightarrow> kst \<Rightarrow> (kst, unit) run" where
  "ilock ipo s =
    (case ipo of None \<Rightarrow> Fail (FPanic ''ilock'')
     | Some ip \<Rightarrow>
       if sint (i_ref (nd s ip)) < 1 then Fail (FPanic ''ilock'')
       else rbind (acquiresleep (InodeLock ip) s) (\<lambda>_ s.
         if i_valid (nd s ip) = 0 then
           rbind (bread (i_dev (nd s ip)) (IBLOCK (i_inum (nd s ip)) s) s) (\<lambda>bp s.
           rbind (lift0 (brelse bp (upd_inode ip (load_dinode
               (drop (dinode_off (i_inum (nd s ip))) (b_data (bf s bp)))) s))) (\<lambda>_ s.
           let s = upd_inode ip (i_valid_update (\<lambda>_. 1)) s
           in if i_type (nd s ip) = 0 then Fail (FPanic ''ilock: no type'') else Done () s))
         else Done () s))"

definition iunlock :: "nat option \<Rightarrow> kst \<Rightarrow> kst res" where
  "iunlock ipo s =
    (case ipo of None \<Rightarrow> Panic ''iunlock''
     | Some ip \<Rightarrow>
       kbind (holdingsleep (InodeLock ip) s) (\<lambda>(r, s).
       if \<not> r \<or> sint (i_ref (nd s ip)) < 1 then Panic ''iunlock''
       else releasesleep (InodeLock ip) s))"

definition itrunc_direct :: "nat \<Rightarrow> nat \<Rightarrow> kst \<Rightarrow> (kst, unit) run" where
  "itrunc_direct ip i s =
    (if i_addrs (nd s ip) i \<noteq> 0 then
       rbind (bfree (i_dev (nd s ip)) (i_addrs (nd s ip) i) s) (\<lambda>_ s.
       Done () (upd_inode ip (\<lambda>x. x\<lparr>i_addrs := (i_addrs x)(i := 0)\<rparr>) s))
     else Done () s)"

definition itrunc :: "nat \<Rightarrow> kst \<Rightarrow> (kst, unit) run" where
  "itrunc ip s =
    rbind (rfor (itrunc_direct ip) [0..<NDIRECT] s) (\<lambda>_ s.
    rbind (if i_addrs (nd s ip) NDIRECT \<noteq> 0 then
        rbind (bread (i_dev (nd s ip)) (i_addrs (nd s ip) NDIRECT) s) (\<lambda>bp s.
        rbind (rfor (\<lambda>j s. let a = get_u32 (4 * j) (b_data (bf s bp))
                 in if a \<noteq> 0 then bfree (i_dev (nd s ip)) a s else Done () s) [0..<NINDIRECT] s) (\<lambda>_ s.
        rbind (lift0 (brelse bp s)) (\<lambda>_ s.
        rbind (bfree (i_dev (nd s ip)) (i_addrs (nd s ip) NDIRECT) s) (\<lambda>_ s.
        Done () (upd_inode ip (\<lambda>x. x\<lparr>i_addrs := (i_addrs x)(NDIRECT := 0)\<rparr>) s)))))
      else Done () s) (\<lambda>_ s.
    iupdate ip (upd_inode ip (i_size_update (\<lambda>_. 0)) s)))"

definition iput :: "nat \<Rightarrow> kst \<Rightarrow> (kst, unit) run" where
  "iput ip s =
    rbind (lift0 (kacquire ItableLock s)) (\<lambda>_ s.
    rbind (if i_ref (nd s ip) = 1 \<and> i_valid (nd s ip) \<noteq> 0 \<and> i_nlink (nd s ip) = 0 then
        rbind (acquiresleep (InodeLock ip) s) (\<lambda>_ s.
        rbind (lift0 (krelease ItableLock s)) (\<lambda>_ s.
        rbind (itrunc ip s) (\<lambda>_ s.
        rbind (iupdate ip (upd_inode ip (i_type_update (\<lambda>_. 0)) s)) (\<lambda>_ s.
        rbind (lift0 (releasesleep (InodeLock ip) (upd_inode ip (i_valid_update (\<lambda>_. 0)) s))) (\<lambda>_ s.
        lift0 (kacquire ItableLock s))))))
      else Done () s) (\<lambda>_ s.
    lift0 (krelease ItableLock (upd_inode ip (\<lambda>x. x\<lparr>i_ref := i_ref x - 1\<rparr>) s))))"

definition iunlockput :: "nat \<Rightarrow> kst \<Rightarrow> (kst, unit) run" where
  "iunlockput ip s = rbind (lift0 (iunlock (Some ip) s)) (\<lambda>_ s. iput ip s)"

section \<open>Content\<close>

definition bmap :: "nat \<Rightarrow> u32 \<Rightarrow> kst \<Rightarrow> (kst, u32) run" where
  "bmap ip bn s =
    (if unat bn < NDIRECT then
       let addr = i_addrs (nd s ip) (unat bn)
       in if addr \<noteq> 0 then Done addr s
          else rbind (balloc (i_dev (nd s ip)) s) (\<lambda>addr s.
            Done addr (upd_inode ip (\<lambda>x. x\<lparr>i_addrs := (i_addrs x)(unat bn := addr)\<rparr>) s))
     else if unat bn - NDIRECT < NINDIRECT then
       let k = unat bn - NDIRECT
       in rbind (if i_addrs (nd s ip) NDIRECT \<noteq> 0 then Done (i_addrs (nd s ip) NDIRECT) s
            else rbind (balloc (i_dev (nd s ip)) s) (\<lambda>addr s.
              Done addr (upd_inode ip (\<lambda>x. x\<lparr>i_addrs := (i_addrs x)(NDIRECT := addr)\<rparr>) s))) (\<lambda>addr s.
          rbind (bread (i_dev (nd s ip)) addr s) (\<lambda>bp s.
          let addr = get_u32 (4 * k) (b_data (bf s bp))
          in rbind (if addr \<noteq> 0 then Done addr s
               else rbind (balloc (i_dev (nd s ip)) s) (\<lambda>addr s.
                 rbind (lift0 (log_write bp (upd_buf bp (b_data_update (set_u32 (4 * k) addr)) s))) (\<lambda>_ s.
                 Done addr s))) (\<lambda>addr s.
             rbind (lift0 (brelse bp s)) (\<lambda>_ s. Done addr s))))
     else Fail (FPanic ''bmap: out of range''))"

record stat =
  st_dev :: i32
  st_ino :: u32
  st_type :: u16
  st_nlink :: u16
  st_size :: u64

definition stati :: "nat \<Rightarrow> kst \<Rightarrow> stat" where
  "stati ip s = (let x = nd s ip in \<lparr>st_dev = i_dev x, st_ino = i_inum x, st_type = i_type x,
     st_nlink = i_nlink x, st_size = ucast (i_size x)\<rparr>)"

datatype dest = ToUser u64 | ToKernel u64 | ToLocal
datatype source = FromUser u64 | FromKernel u64 | FromLocal "u8 list"

text \<open>The copies of one block's part of a transfer that has moved \<open>tot\<close> bytes so far.\<close>

fun copy_to :: "dest \<Rightarrow> nat \<Rightarrow> u8 list \<Rightarrow> kst \<Rightarrow> (i32 \<times> kst) res" where
  "copy_to (ToUser a) tot bs s = either_copyout True (a + of_nat tot) bs s"
| "copy_to (ToKernel a) tot bs s = either_copyout False (a + of_nat tot) bs s"
| "copy_to ToLocal tot bs s = kbind (myproc s) (\<lambda>(_, s). Ok (0, s))"

fun copy_from :: "source \<Rightarrow> nat \<Rightarrow> nat \<Rightarrow> kst \<Rightarrow> ((i32 \<times> u8 list) \<times> kst) res" where
  "copy_from (FromUser a) tot m s = either_copyin True (a + of_nat tot) m s"
| "copy_from (FromKernel a) tot m s = either_copyin False (a + of_nat tot) m s"
| "copy_from (FromLocal bs) tot m s = kbind (myproc s) (\<lambda>(_, s). Ok ((0, take m (drop tot bs)), s))"

text \<open>The offsets and lengths of the parts of a transfer, one per block.\<close>

function chunks :: "nat \<Rightarrow> nat \<Rightarrow> (nat \<times> nat) list" where
  "chunks off n =
    (if n = 0 then []
     else let m = min n (BSIZE - off mod BSIZE) in (off, m) # chunks (off + m) (n - m))"
  by pat_completeness auto
termination
  by (relation "measure snd") (auto simp: less_diff_conv2 intro: Suc_leI)

declare chunks.simps [simp del]

primrec readi_loop :: "nat \<Rightarrow> dest \<Rightarrow> (nat \<times> nat) list \<Rightarrow> nat \<Rightarrow> u8 list \<Rightarrow> kst \<Rightarrow> (kst, i32 \<times> u8 list) run" where
  "readi_loop ip dst [] tot got s = Done (of_nat tot, got) s"
| "readi_loop ip dst (c # cs) tot got s =
    (case c of (off, m) \<Rightarrow>
     rbind (bmap ip (of_nat (off div BSIZE)) s) (\<lambda>addr s.
     rbind (bread (i_dev (nd s ip)) addr s) (\<lambda>bp s.
     let bs = take m (drop (off mod BSIZE) (b_data (bf s bp)))
     in rbind (lift (copy_to dst tot bs s)) (\<lambda>r s.
        rbind (lift0 (brelse bp s)) (\<lambda>_ s.
        if r = - 1 then Done (- 1, got) s
        else readi_loop ip dst cs (tot + m) (got @ bs) s)))))"

definition readi :: "nat \<Rightarrow> dest \<Rightarrow> u32 \<Rightarrow> u32 \<Rightarrow> kst \<Rightarrow> (kst, i32 \<times> u8 list) run" where
  "readi ip dst off n s =
    (let sz = i_size (nd s ip)
     in if off > sz \<or> off + n < off then Done (0, []) s
        else
          let n = (if off + n > sz then sz - off else n)
          in readi_loop ip dst (chunks (unat off) (unat n)) 0 [] s)"

text \<open>
  \<open>writei_loop\<close> gives the bytes moved and the offset reached.  Bytes that were copied into the
  buffer before a copy failed stay there.
\<close>

primrec writei_loop :: "nat \<Rightarrow> source \<Rightarrow> (nat \<times> nat) list \<Rightarrow> nat \<Rightarrow> nat \<Rightarrow> kst \<Rightarrow> (kst, nat \<times> nat) run" where
  "writei_loop ip src [] tot off s = Done (tot, off) s"
| "writei_loop ip src (c # cs) tot off s =
    (case c of (_, m) \<Rightarrow>
     rbind (bmap ip (of_nat (off div BSIZE)) s) (\<lambda>addr s.
     rbind (bread (i_dev (nd s ip)) addr s) (\<lambda>bp s.
     rbind (lift (copy_from src tot m s)) (\<lambda>(r, bs) s.
     let s = upd_buf bp (b_data_update (splice (off mod BSIZE) bs)) s
     in if r = - 1 then rbind (lift0 (brelse bp s)) (\<lambda>_ s. Done (tot, off) s)
        else
          rbind (lift0 (log_write bp s)) (\<lambda>_ s.
          rbind (lift0 (brelse bp s)) (\<lambda>_ s.
          writei_loop ip src cs (tot + m) (off + m) s))))))"

definition writei :: "nat \<Rightarrow> source \<Rightarrow> u32 \<Rightarrow> u32 \<Rightarrow> kst \<Rightarrow> (kst, i32) run" where
  "writei ip src off n s =
    (if off > i_size (nd s ip) \<or> off + n < off then Done (- 1) s
     else if unat (off + n) > MAXFILE * BSIZE then Done (- 1) s
     else
       rbind (writei_loop ip src (chunks (unat off) (unat n)) 0 (unat off) s) (\<lambda>(tot, off) s.
       rbind (iupdate ip (if off > unat (i_size (nd s ip)) then
                 upd_inode ip (i_size_update (\<lambda>_. of_nat off)) s else s)) (\<lambda>_ s.
       Done (of_nat tot) s)))"

section \<open>Directories\<close>

text \<open>\<open>strncmp\<close> on strings given by their bytes; the terminator follows the last one.\<close>

primrec strncmp_bytes :: "nat \<Rightarrow> u8 list \<Rightarrow> u8 list \<Rightarrow> i32" where
  "strncmp_bytes 0 p q = 0"
| "strncmp_bytes (Suc n) p q =
    (let a = (case p of [] \<Rightarrow> 0 | x # _ \<Rightarrow> x); b = (case q of [] \<Rightarrow> 0 | x # _ \<Rightarrow> x)
     in if a \<noteq> 0 \<and> a = b then strncmp_bytes n (tl p) (tl q) else ucast a - ucast b)"

definition namecmp :: "u8 list \<Rightarrow> u8 list \<Rightarrow> i32" where
  "namecmp a b = strncmp_bytes DIRSIZ a b"

definition name_bytes :: "u8 list \<Rightarrow> u8 list" where
  "name_bytes name = take DIRSIZ (takeWhile (\<lambda>c. c \<noteq> 0) name @ replicate DIRSIZ 0)"

definition dirent_offs :: "nat \<Rightarrow> nat list" where
  "dirent_offs sz = map (\<lambda>k. 16 * k) [0..<(sz + 15) div 16]"

primrec dirlookup_scan :: "nat \<Rightarrow> u8 list \<Rightarrow> nat list \<Rightarrow> kst \<Rightarrow> (kst, (nat \<times> nat) option) run" where
  "dirlookup_scan dp name [] s = Done None s"
| "dirlookup_scan dp name (off # offs) s =
    rbind (readi dp ToLocal (of_nat off) 16 s) (\<lambda>(r, de) s.
    if r \<noteq> 16 then Fail (FPanic ''dirlookup read'')
    else
      let inum = get_u16 0 de
      in if inum = 0 then dirlookup_scan dp name offs s
         else if namecmp name (drop 2 de) = 0 then
           rbind (lift (iget (i_dev (nd s dp)) (ucast inum) s)) (\<lambda>ip s. Done (Some (ip, off)) s)
         else dirlookup_scan dp name offs s)"

definition dirlookup :: "nat \<Rightarrow> u8 list \<Rightarrow> kst \<Rightarrow> (kst, (nat \<times> nat) option) run" where
  "dirlookup dp name s =
    (if i_type (nd s dp) \<noteq> T_DIR then Fail (FPanic ''dirlookup not DIR'')
     else dirlookup_scan dp name (dirent_offs (unat (i_size (nd s dp)))) s)"

text \<open>The offset of the first empty entry, or the end of the directory.\<close>

primrec dirlink_scan :: "nat \<Rightarrow> nat list \<Rightarrow> kst \<Rightarrow> (kst, nat) run" where
  "dirlink_scan dp [] s = Done (16 * ((unat (i_size (nd s dp)) + 15) div 16)) s"
| "dirlink_scan dp (off # offs) s =
    rbind (readi dp ToLocal (of_nat off) 16 s) (\<lambda>(r, de) s.
    if r \<noteq> 16 then Fail (FPanic ''dirlink read'')
    else if get_u16 0 de = 0 then Done off s
    else dirlink_scan dp offs s)"

definition dirlink :: "nat \<Rightarrow> u8 list \<Rightarrow> u32 \<Rightarrow> kst \<Rightarrow> (kst, i32) run" where
  "dirlink dp name inum s =
    rbind (dirlookup dp name s) (\<lambda>r s.
    case r of Some (ip, _) \<Rightarrow> rbind (iput ip s) (\<lambda>_ s. Done (- 1) s)
    | None \<Rightarrow>
      rbind (dirlink_scan dp (dirent_offs (unat (i_size (nd s dp)))) s) (\<lambda>off s.
      rbind (writei dp (FromLocal (le_bytes 2 (ucast inum :: u16) @ name_bytes name)) (of_nat off) 16 s) (\<lambda>r s.
      if r \<noteq> 16 then Fail (FPanic ''dirlink'') else Done 0 s)))"

section \<open>Paths\<close>

abbreviation slash :: u8 where "slash \<equiv> 47"

definition skipelem :: "u8 list \<Rightarrow> (u8 list \<times> u8 list) option" where
  "skipelem path =
    (let path = dropWhile (\<lambda>c. c = slash) path
     in if path = [] then None
        else
          let elem = takeWhile (\<lambda>c. c \<noteq> slash) path; rest = dropWhile (\<lambda>c. c \<noteq> slash) path
          in Some (take DIRSIZ elem, dropWhile (\<lambda>c. c = slash) rest))"

lemma skipelem_shorter: "skipelem path = Some (name, rest) \<Longrightarrow> length rest < length path"
proof -
  assume a: "skipelem path = Some (name, rest)"
  let ?p = "dropWhile (\<lambda>c. c = slash) path"
  have p: "?p \<noteq> []" and r: "rest = dropWhile (\<lambda>c. c = slash) (dropWhile (\<lambda>c. c \<noteq> slash) ?p)"
    using a by (auto simp: skipelem_def Let_def split: if_splits)
  have "hd ?p \<noteq> slash" using p by (rule hd_dropWhile)
  then have "length (dropWhile (\<lambda>c. c \<noteq> slash) ?p) < length ?p"
    using p by (cases ?p) (auto simp: le_imp_less_Suc length_dropWhile_le)
  then show ?thesis using r length_dropWhile_le [of "\<lambda>c. c = slash"]
    by (metis (no_types, lifting) le_trans not_le)
qed

lemma rbind_cong [fundef_cong]:
  "r = r' \<Longrightarrow> (\<And>a s. f a s = g a s) \<Longrightarrow> rbind r f = rbind r' g"
  by (metis ext)

function namex_loop :: "bool \<Rightarrow> u8 list \<Rightarrow> u8 list \<Rightarrow> nat \<Rightarrow> kst \<Rightarrow> (kst, (nat \<times> u8 list) option) run" where
  "namex_loop parent path name ip s =
    (case skipelem path of
       None \<Rightarrow> if parent then rbind (iput ip s) (\<lambda>_ s. Done None s) else Done (Some (ip, name)) s
     | Some (name, path) \<Rightarrow>
       rbind (ilock (Some ip) s) (\<lambda>_ s.
       if i_type (nd s ip) \<noteq> T_DIR then rbind (iunlockput ip s) (\<lambda>_ s. Done None s)
       else if parent \<and> path = [] then
         rbind (lift0 (iunlock (Some ip) s)) (\<lambda>_ s. Done (Some (ip, name)) s)
       else
         rbind (dirlookup ip name s) (\<lambda>r s.
         rbind (iunlockput ip s) (\<lambda>_ s.
         case r of None \<Rightarrow> Done None s
         | Some (nx, _) \<Rightarrow> namex_loop parent path name nx s))))"
  by pat_completeness auto
termination
  by (relation "measure (\<lambda>(parent, path, name, ip, s). length path)") (auto intro: skipelem_shorter)

declare namex_loop.simps [simp del]

definition namex :: "bool \<Rightarrow> u8 list \<Rightarrow> kst \<Rightarrow> (kst, (nat \<times> u8 list) option) run" where
  "namex parent path s =
    (if path \<noteq> [] \<and> hd path = slash then
       rbind (lift (iget ROOTDEV ROOTINO s)) (\<lambda>ip s. namex_loop parent path [] ip s)
     else
       rbind (lift (myproc s)) (\<lambda>p s. rderef p (\<lambda>p. rderef (p_cwd (procs s p)) (\<lambda>cwd.
       rbind (lift (idup cwd s)) (\<lambda>ip s. namex_loop parent path [] ip s)))))"

definition namei :: "u8 list \<Rightarrow> kst \<Rightarrow> (kst, nat option) run" where
  "namei path s = rbind (namex False path s) (\<lambda>r s. Done (map_option fst r) s)"

definition nameiparent :: "u8 list \<Rightarrow> kst \<Rightarrow> (kst, (nat \<times> u8 list) option) run" where
  "nameiparent path s = namex True path s"

end
