(* ===== verification/Pipe.thy ===== *)
theory Pipe
  imports Procs
begin

text \<open>
  Kernel/pipe.c without \<open>pipealloc\<close>: the ring buffer of a pipe.  A pipe is named by the page that
  \<open>kalloc\<close> gave it; its fields are kept apart from the bytes of that page.
\<close>

abbreviation PIPESIZE :: u32 where "PIPESIZE \<equiv> 512"

abbreviation pp :: "kst \<Rightarrow> u64 \<Rightarrow> pipe" where "pp s a \<equiv> pipes (fs s) a"

definition upd_pipe :: "u64 \<Rightarrow> (pipe \<Rightarrow> pipe) \<Rightarrow> kst \<Rightarrow> kst" where
  "upd_pipe a f s = upd_fs (\<lambda>x. x\<lparr>pipes := (pipes x)(a := f (pipes x a))\<rparr>) s"

definition pipeclose :: "u64 \<Rightarrow> bool \<Rightarrow> kst \<Rightarrow> kst res" where
  "pipeclose pi writable s =
    kbind (kacquire (PipeLock pi) s) (\<lambda>s.
    kbind (if writable then wakeup (Some (ChPipeR pi)) (upd_pipe pi (pi_writeopen_update (\<lambda>_. 0)) s)
           else wakeup (Some (ChPipeW pi)) (upd_pipe pi (pi_readopen_update (\<lambda>_. 0)) s)) (\<lambda>s.
    kbind (krelease (PipeLock pi) s) (\<lambda>s'.
    if pi_readopen (pp s pi) = 0 \<and> pi_writeopen (pp s pi) = 0 then mcall (\<lambda>h. kfree h pi) s' else Ok s')))"

section \<open>Writing\<close>

text \<open>How a run of the writer's loop without sleeping ends: after \<open>i\<close> bytes, with an error, or full.\<close>

datatype pwrite = PwDone nat | PwDead | PwFull nat

primrec pipe_fill :: "nat \<Rightarrow> u64 \<Rightarrow> nat \<Rightarrow> u64 \<Rightarrow> nat \<Rightarrow> kst \<Rightarrow> (pwrite \<times> kst) res" where
  "pipe_fill 0 pi pr addr i s = Ok (PwDone i, s)"
| "pipe_fill (Suc k) pi pr addr i s =
    (if pi_readopen (pp s pi) = 0 \<or> p_killed (procs s pr) \<noteq> 0 then Ok (PwDead, s)
     else if pi_nwrite (pp s pi) = pi_nread (pp s pi) + PIPESIZE then Ok (PwFull i, s)
     else
       kbind (copyin (hart s) (p_pagetable (procs s pr)) (addr + of_nat i) 1 (mach s)) (\<lambda>(r, bs).
       if r = - 1 then Ok (PwDone i, s)
       else pipe_fill k pi pr addr (i + 1) (upd_pipe pi (\<lambda>x. x\<lparr>
              pi_data := (pi_data x)(unat (pi_nwrite x mod PIPESIZE) := hd bs), pi_nwrite := pi_nwrite x + 1\<rparr>) s)))"

text \<open>An iteration starts with \<open>i\<close> bytes written of \<open>n\<close>.\<close>

definition pipewrite_iter :: "u64 \<Rightarrow> nat \<Rightarrow> u64 \<Rightarrow> nat \<Rightarrow> nat \<Rightarrow> kst \<Rightarrow> (kst, nat + i32) run" where
  "pipewrite_iter pi pr addr n i s =
    rbind (lift (pipe_fill (n - i) pi pr addr i s)) (\<lambda>r s.
    case r of
      PwDead \<Rightarrow> rbind (lift0 (krelease (PipeLock pi) s)) (\<lambda>_. Done (Inr (- 1)))
    | PwFull i \<Rightarrow>
        rbind (lift0 (wakeup (Some (ChPipeR pi)) s)) (\<lambda>_ s.
        rbind (sleep (ChPipeW pi) (PipeLock pi) s) (\<lambda>_. Done (Inl i)))
    | PwDone i \<Rightarrow>
        rbind (lift0 (wakeup (Some (ChPipeR pi)) s)) (\<lambda>_ s.
        rbind (lift0 (krelease (PipeLock pi) s)) (\<lambda>_. Done (Inr (of_nat i)))))"

definition pipewrite :: "u64 \<Rightarrow> u64 \<Rightarrow> i32 \<Rightarrow> kst \<Rightarrow> (kst, i32) run" where
  "pipewrite pi addr n s =
    rbind (lift (myproc s)) (\<lambda>pr s. rderef pr (\<lambda>pr.
    rbind (lift0 (kacquire (PipeLock pi) s)) (\<lambda>_ s.
    rloopx (pipewrite_iter pi pr addr (nat (sint n))) 0 s)))"

section \<open>Reading\<close>

definition piperead_wait :: "u64 \<Rightarrow> nat \<Rightarrow> kst \<Rightarrow> (kst, bool option) run" where
  "piperead_wait pi pr s =
    (if pi_nread (pp s pi) = pi_nwrite (pp s pi) \<and> pi_writeopen (pp s pi) \<noteq> 0 then
       if p_killed (procs s pr) \<noteq> 0 then rbind (lift0 (krelease (PipeLock pi) s)) (\<lambda>_. Done (Some False))
       else rbind (sleep (ChPipeR pi) (PipeLock pi) s) (\<lambda>_. Done None)
     else Done (Some True) s)"

primrec pipe_drain :: "nat \<Rightarrow> u64 \<Rightarrow> nat \<Rightarrow> u64 \<Rightarrow> nat \<Rightarrow> kst \<Rightarrow> (nat \<times> kst) res" where
  "pipe_drain 0 pi pr addr i s = Ok (i, s)"
| "pipe_drain (Suc k) pi pr addr i s =
    (if pi_nread (pp s pi) = pi_nwrite (pp s pi) then Ok (i, s)
     else
       let ch = pi_data (pp s pi) (unat (pi_nread (pp s pi) mod PIPESIZE));
           s = upd_pipe pi (\<lambda>x. x\<lparr>pi_nread := pi_nread x + 1\<rparr>) s
       in kbind (mget (\<lambda>h. copyout h (p_pagetable (procs s pr)) (addr + of_nat i) [ch]) s) (\<lambda>(r, s).
          if r = - 1 then Ok (i, s) else pipe_drain k pi pr addr (i + 1) s))"

definition piperead :: "u64 \<Rightarrow> u64 \<Rightarrow> i32 \<Rightarrow> kst \<Rightarrow> (kst, i32) run" where
  "piperead pi addr n s =
    rbind (lift (myproc s)) (\<lambda>pr s. rderef pr (\<lambda>pr.
    rbind (lift0 (kacquire (PipeLock pi) s)) (\<lambda>_ s.
    rbind (rloop (piperead_wait pi pr) s) (\<lambda>ok s.
    if \<not> ok then Done (- 1) s
    else
      rbind (lift (pipe_drain (nat (sint n)) pi pr addr 0 s)) (\<lambda>i s.
      rbind (lift0 (wakeup (Some (ChPipeW pi)) s)) (\<lambda>_ s.
      rbind (lift0 (krelease (PipeLock pi) s)) (\<lambda>_. Done (of_nat i))))))))"

end
