(* ===== verification/Console.thy ===== *)
theory Console
  imports Procs
begin

text \<open>
  The serial port driver (kernel/uart.c), the kernel's printf (kernel/printf.c) and the console
  (kernel/console.c).  \<open>Spins\<close> stands for waiting on the transmitter, as \<open>uartputc_sync\<close> does, and for
  the endless loops of a machine that panicked.
\<close>

unbundle bit_operations_syntax

abbreviation UART_TX_BUF_SIZE :: u64 where "UART_TX_BUF_SIZE \<equiv> 32"
abbreviation INPUT_BUF :: u32 where "INPUT_BUF \<equiv> 128"
abbreviation BACKSPACE :: i32 where "BACKSPACE \<equiv> 0x100"
abbreviation CONSOLE :: nat where "CONSOLE \<equiv> 1"

definition upd_uart :: "(uartst \<Rightarrow> uartst) \<Rightarrow> kst \<Rightarrow> kst" where
  "upd_uart f s = s\<lparr>uart := f (uart s)\<rparr>"

section \<open>The serial port\<close>

text \<open>Writing a byte to the transmit register.\<close>

definition write_THR :: "u8 \<Rightarrow> kst \<Rightarrow> kst" where
  "write_THR c s = upd_uart (\<lambda>u. u\<lparr>u_sent := u_sent u @ [c], u_room := u_room u - 1\<rparr>) s"

text \<open>The register writes of \<open>uartinit\<close>: register and value.\<close>

definition uartinit :: "kst \<Rightarrow> (nat \<times> u8) list \<times> kst" where
  "uartinit s =
    ([(1, 0x00), (3, 0x80), (0, 0x03), (1, 0x00), (3, 0x03), (2, 0x07), (1, 0x03)],
     s\<lparr>mach := initlock UartTxLock ''uart'' (mach s)\<rparr>)"

text \<open>
  \<open>uartstart\<close> ends when the buffer is empty or the transmitter is full: each round uses up one of
  the bytes the device has room for, so that number bounds the rounds.
\<close>

primrec uartstart_loop :: "nat \<Rightarrow> kst \<Rightarrow> kst res" where
  "uartstart_loop 0 s = Ok s"
| "uartstart_loop (Suc n) s =
    (if tx_w (uart s) = tx_r (uart s) then Ok s
     else
       let c = tx_buf (uart s) (unat (tx_r (uart s) mod UART_TX_BUF_SIZE))
       in kbind (wakeup (Some ChUart) (upd_uart (\<lambda>u. u\<lparr>tx_r := tx_r u + 1\<rparr>) s)) (\<lambda>s.
          uartstart_loop n (write_THR c s)))"

definition uartstart :: "kst \<Rightarrow> kst res" where
  "uartstart s = uartstart_loop (u_room (uart s)) s"

definition uartputc_iter :: "u8 \<Rightarrow> kst \<Rightarrow> (kst, unit option) run" where
  "uartputc_iter c s =
    (if tx_w (uart s) = tx_r (uart s) + UART_TX_BUF_SIZE then
       rbind (sleep ChUart UartTxLock s) (\<lambda>_. Done None)
     else
       rbind (lift0 (uartstart (upd_uart (\<lambda>u. u\<lparr>
           tx_buf := (tx_buf u)(unat (tx_w u mod UART_TX_BUF_SIZE) := c), tx_w := tx_w u + 1\<rparr>) s))) (\<lambda>_ s.
       rbind (lift0 (krelease UartTxLock s)) (\<lambda>_. Done (Some ()))))"

definition uartputc :: "u8 \<Rightarrow> kst \<Rightarrow> (kst, unit) run" where
  "uartputc c s =
    rbind (lift0 (kacquire UartTxLock s)) (\<lambda>_ s.
    if panicked s then Fail FSpins else rloop (uartputc_iter c) s)"

definition uartputc_sync :: "u8 \<Rightarrow> kst \<Rightarrow> kst res" where
  "uartputc_sync c s =
    (let s = s\<lparr>mach := push_off (hart s) (mach s)\<rparr>
     in if panicked s then Spins
        else if u_room (uart s) = 0 then Spins
        else mcall pop_off (write_THR c s))"

definition uartgetc :: "kst \<Rightarrow> i32 \<times> kst" where
  "uartgetc s =
    (case u_rx (uart s) of
       [] \<Rightarrow> (- 1, s)
     | c # cs \<Rightarrow> (ucast c, upd_uart (\<lambda>u. u\<lparr>u_rx := cs\<rparr>) s))"

section \<open>Printing\<close>

definition consputc :: "i32 \<Rightarrow> kst \<Rightarrow> kst res" where
  "consputc c s =
    (if c = BACKSPACE then
       kbind (uartputc_sync 8 s) (\<lambda>s. kbind (uartputc_sync 32 s) (\<lambda>s. uartputc_sync 8 s))
     else uartputc_sync (ucast c) s)"

definition ascii :: "string \<Rightarrow> u8 list" where
  "ascii cs = map of_char cs"

definition digits :: "u8 list" where
  "digits = ascii ''0123456789abcdef''"

text \<open>The digits of a number, least significant first, as the loop stores them; the base is at least two.\<close>

function digit_loop :: "u8 list \<Rightarrow> nat \<Rightarrow> nat \<Rightarrow> u8 list" where
  "digit_loop ds base x =
    ds ! (x mod base) # (if base < 2 \<or> x div base = 0 then [] else digit_loop ds base (x div base))"
  by pat_completeness auto
termination
proof (relation "measure (\<lambda>(ds, b, x). x)")
  fix ds :: "u8 list" and b x :: nat assume "\<not> (b < 2 \<or> x div b = 0)"
  then show "((ds, b, x div b), (ds, b, x)) \<in> measure (\<lambda>(ds, b, x). x)"
    by (cases x) (auto intro: div_less_dividend)
qed simp

declare digit_loop.simps [simp del]

definition printint :: "i32 \<Rightarrow> nat \<Rightarrow> bool \<Rightarrow> u8 list" where
  "printint xx base sign =
    (let neg = (sign \<and> sint xx < 0); x = (if neg then - xx else xx);
         buf = digit_loop digits base (unat x) @ (if neg then [45] else [])
     in rev buf)"

definition printptr :: "u64 \<Rightarrow> u8 list" where
  "printptr x = [48, 120] @ map (\<lambda>i. digits ! unat (drop_bit 60 (push_bit (4 * i) x))) [0..<16]"

datatype parg = PInt i32 | PPtr u64 | PStr "u8 list option"

text \<open>
  The characters of a call of \<open>printf\<close>; None when an argument is missing or of another type than
  the conversion reads.
\<close>

fun fmt_out :: "u8 list \<Rightarrow> parg list \<Rightarrow> u8 list option" where
  "fmt_out [] args = Some []"
| "fmt_out [c] args = (if c \<noteq> 37 then Some [c] else Some [])"
| "fmt_out (c # d # cs) args =
    (if c \<noteq> 37 then map_option ((#) c) (fmt_out (d # cs) args)
     else if d = 100 then (case args of PInt x # as \<Rightarrow> map_option ((@) (printint x 10 True)) (fmt_out cs as) | _ \<Rightarrow> None)
     else if d = 120 then (case args of PInt x # as \<Rightarrow> map_option ((@) (printint x 16 True)) (fmt_out cs as) | _ \<Rightarrow> None)
     else if d = 112 then (case args of PPtr x # as \<Rightarrow> map_option ((@) (printptr x)) (fmt_out cs as) | _ \<Rightarrow> None)
     else if d = 115 then (case args of
         PStr r # as \<Rightarrow> map_option ((@) (case r of None \<Rightarrow> ascii ''(null)'' | Some t \<Rightarrow> t)) (fmt_out cs as)
       | _ \<Rightarrow> None)
     else if d = 37 then map_option ((#) 37) (fmt_out cs args)
     else map_option (\<lambda>r. 37 # d # r) (fmt_out cs args))"

definition printf :: "u8 list \<Rightarrow> parg list \<Rightarrow> kst \<Rightarrow> kst res" where
  "printf fmt args s =
    (let locking = pr_locking s
     in kbind (if locking then kacquire PrLock s else Ok s) (\<lambda>s.
        deref (fmt_out fmt args) (\<lambda>out.
        kbind (kfor (\<lambda>c. consputc (ucast c)) out s) (\<lambda>s.
        if locking then krelease PrLock s else Ok s))))"

definition printfinit :: "kst \<Rightarrow> kst" where
  "printfinit s = s\<lparr>mach := initlock PrLock ''pr'' (mach s), pr_locking := True\<rparr>"

text \<open>
  \<open>panic\<close>: the state in which the machine stops, when the message could be printed.  In the rest of
  the model the outcome \<open>Panic\<close> stands for it.
\<close>

definition panic :: "u8 list \<Rightarrow> kst \<Rightarrow> kst res" where
  "panic msg s =
    kbind (printf (ascii ''panic: '') [] (s\<lparr>pr_locking := False\<rparr>)) (\<lambda>s.
    kbind (printf msg [] s) (\<lambda>s.
    kbind (printf [10] [] s) (\<lambda>s. Ok (s\<lparr>panicked := True\<rparr>))))"

text \<open>The names of \<open>procdump\<close>: \<open>states[USED]\<close> is a null pointer.\<close>

definition state_name :: "procstate \<Rightarrow> u8 list" where
  "state_name q = ascii (case q of UNUSED \<Rightarrow> ''unused'' | USED \<Rightarrow> ''???'' | RUNNABLE \<Rightarrow> ''runble'' | ZOMBIE \<Rightarrow> ''zombie'')"

definition procdump :: "kst \<Rightarrow> kst res" where
  "procdump s =
    kbind (printf [10] [] s) (\<lambda>s.
    kfor (\<lambda>p s.
      if p_state (procs s p) = UNUSED then Ok s
      else
        kbind (printf (ascii ''%d %s %s'')
            [PInt (p_pid (procs s p)), PStr (Some (state_name (p_state (procs s p)))), PStr (Some (p_name (procs s p)))] s)
          (printf [10] [])) [0..<NPROC] s)"

section \<open>The console\<close>

definition upd_cons :: "(console \<Rightarrow> console) \<Rightarrow> kst \<Rightarrow> kst" where
  "upd_cons f s = upd_fs (\<lambda>x. x\<lparr>cons := f (cons x)\<rparr>) s"

abbreviation cn :: "kst \<Rightarrow> console" where "cn s \<equiv> cons (fs s)"

text \<open>\<open>k\<close> bytes are left to write, \<open>i\<close> have been written.\<close>

primrec consolewrite_loop :: "nat \<Rightarrow> bool \<Rightarrow> u64 \<Rightarrow> nat \<Rightarrow> kst \<Rightarrow> (kst, i32) run" where
  "consolewrite_loop 0 user_src src i s = Done (of_nat i) s"
| "consolewrite_loop (Suc k) user_src src i s =
    rbind (lift (either_copyin user_src (src + of_nat i) 1 s)) (\<lambda>(r, bs) s.
    if r = - 1 then Done (of_nat i) s
    else rbind (uartputc (hd bs) s) (\<lambda>_ s. consolewrite_loop k user_src src (i + 1) s))"

definition consolewrite :: "bool \<Rightarrow> u64 \<Rightarrow> i32 \<Rightarrow> kst \<Rightarrow> (kst, i32) run" where
  "consolewrite user_src src n s = consolewrite_loop (nat (sint n)) user_src src 0 s"

text \<open>Waiting for input; the result says whether the process was killed.\<close>

definition consoleread_wait :: "kst \<Rightarrow> (kst, bool option) run" where
  "consoleread_wait s =
    (if cons_r (cn s) = cons_w (cn s) then
       rbind (lift (myproc s)) (\<lambda>p s. rderef p (\<lambda>p.
       if p_killed (procs s p) \<noteq> 0 then
         rbind (lift0 (krelease ConsLock s)) (\<lambda>_. Done (Some True))
       else rbind (sleep ChCons ConsLock s) (\<lambda>_. Done None)))
     else Done (Some False) s)"

text \<open>\<open>n\<close> bytes are left to read of \<open>target\<close>; None when the process was killed.\<close>

primrec consoleread_loop :: "nat \<Rightarrow> nat \<Rightarrow> bool \<Rightarrow> u64 \<Rightarrow> kst \<Rightarrow> (kst, nat option) run" where
  "consoleread_loop 0 target user_dst dst s = Done (Some 0) s"
| "consoleread_loop (Suc n) target user_dst dst s =
    rbind (rloop consoleread_wait s) (\<lambda>killed s.
    if killed then Done None s
    else
      let c = cons_buf (cn s) (unat (cons_r (cn s) mod INPUT_BUF));
          s = upd_cons (\<lambda>x. x\<lparr>cons_r := cons_r x + 1\<rparr>) s
      in if c = 4 then
           Done (Some (Suc n)) (if Suc n < target then upd_cons (\<lambda>x. x\<lparr>cons_r := cons_r x - 1\<rparr>) s else s)
         else
           rbind (lift (either_copyout user_dst dst [c] s)) (\<lambda>r s.
           if r = - 1 then Done (Some (Suc n)) s
           else if c = 10 then Done (Some n) s
           else consoleread_loop n target user_dst (dst + 1) s))"

definition consoleread :: "bool \<Rightarrow> u64 \<Rightarrow> i32 \<Rightarrow> kst \<Rightarrow> (kst, i32) run" where
  "consoleread user_dst dst n s =
    rbind (lift0 (kacquire ConsLock s)) (\<lambda>_ s.
    if sint n \<le> 0 then rbind (lift0 (krelease ConsLock s)) (\<lambda>_. Done 0)
    else
      rbind (consoleread_loop (nat (sint n)) (nat (sint n)) user_dst dst s) (\<lambda>r s.
      case r of None \<Rightarrow> Done (- 1) s
      | Some left \<Rightarrow> rbind (lift0 (krelease ConsLock s)) (\<lambda>_. Done (n - of_nat left))))"

text \<open>Erasing the line: at most the characters between the write and the edit index.\<close>

primrec kill_line :: "nat \<Rightarrow> kst \<Rightarrow> kst res" where
  "kill_line 0 s = Ok s"
| "kill_line (Suc k) s =
    (if cons_e (cn s) \<noteq> cons_w (cn s) \<and> cons_buf (cn s) (unat ((cons_e (cn s) - 1) mod INPUT_BUF)) \<noteq> 10 then
       kbind (consputc BACKSPACE (upd_cons (\<lambda>x. x\<lparr>cons_e := cons_e x - 1\<rparr>) s)) (kill_line k)
     else Ok s)"

definition console_input :: "u8 \<Rightarrow> kst \<Rightarrow> kst res" where
  "console_input c s =
    (if c \<noteq> 0 \<and> cons_e (cn s) - cons_r (cn s) < INPUT_BUF then
       let c = (if c = 13 then 10 else c)
       in kbind (consputc (ucast c) s) (\<lambda>s.
          let s = upd_cons (\<lambda>x. x\<lparr>cons_buf := (cons_buf x)(unat (cons_e x mod INPUT_BUF) := c), cons_e := cons_e x + 1\<rparr>) s
          in if c = 10 \<or> c = 4 \<or> cons_e (cn s) = cons_r (cn s) + INPUT_BUF then
               wakeup (Some ChCons) (upd_cons (\<lambda>x. x\<lparr>cons_w := cons_e x\<rparr>) s)
             else Ok s)
     else Ok s)"

definition consoleintr :: "u8 \<Rightarrow> kst \<Rightarrow> kst res" where
  "consoleintr c s =
    kbind (kacquire ConsLock s) (\<lambda>s.
    kbind (if c = 16 then procdump s
           else if c = 21 then kill_line (unat (cons_e (cn s) - cons_w (cn s))) s
           else if c = 8 \<or> c = 0x7f then
             (if cons_e (cn s) \<noteq> cons_w (cn s) then consputc BACKSPACE (upd_cons (\<lambda>x. x\<lparr>cons_e := cons_e x - 1\<rparr>) s)
              else Ok s)
           else console_input c s) (\<lambda>s.
    krelease ConsLock s))"

text \<open>The interrupt handler of the port handles the bytes received so far, one per round.\<close>

primrec uartintr_loop :: "nat \<Rightarrow> kst \<Rightarrow> kst res" where
  "uartintr_loop 0 s = Ok s"
| "uartintr_loop (Suc k) s =
    (let (c, s) = uartgetc s
     in if c = - 1 then Ok s else kbind (consoleintr (ucast c) s) (uartintr_loop k))"

definition uartintr :: "kst \<Rightarrow> kst res" where
  "uartintr s =
    kbind (uartintr_loop (length (u_rx (uart s)) + 1) s) (\<lambda>s.
    kbind (kacquire UartTxLock s) (\<lambda>s.
    kbind (uartstart s) (\<lambda>s. krelease UartTxLock s)))"

definition consoleinit :: "kst \<Rightarrow> kst" where
  "consoleinit s =
    (let s = s\<lparr>mach := initlock ConsLock ''cons'' (mach s)\<rparr>; (_, s) = uartinit s
     in s\<lparr>devsw := (devsw s)(CONSOLE := True)\<rparr>)"

end
