(* ===== verification/File.thy ===== *)
theory File
  imports Fs Pipe Console
begin

text \<open>
  Kernel/file.c and \<open>pipealloc\<close> of kernel/pipe.c: the table of open files, its reference counts, and
  the dispatch of reads and writes to pipes, the console and inodes.
\<close>

abbreviation NFILE :: nat where "NFILE \<equiv> 100"
abbreviation NDEV :: nat where "NDEV \<equiv> 10"

abbreviation fl :: "kst \<Rightarrow> nat \<Rightarrow> kfile" where "fl s i \<equiv> files (fs s) i"

definition upd_file :: "nat \<Rightarrow> (kfile \<Rightarrow> kfile) \<Rightarrow> kst \<Rightarrow> kst" where
  "upd_file i f s = upd_fs (\<lambda>x. x\<lparr>files := (files x)(i := f (files x i))\<rparr>) s"

definition fileinit :: "kst \<Rightarrow> kst" where
  "fileinit s = s\<lparr>mach := initlock FtableLock ''ftable'' (mach s)\<rparr>"

definition filealloc :: "kst \<Rightarrow> (nat option \<times> kst) res" where
  "filealloc s =
    kbind (kacquire FtableLock s) (\<lambda>s.
    case find (\<lambda>i. f_ref (fl s i) = 0) [0..<NFILE] of
      Some i \<Rightarrow> kbind (krelease FtableLock (upd_file i (f_ref_update (\<lambda>_. 1)) s)) (\<lambda>s. Ok (Some i, s))
    | None \<Rightarrow> kbind (krelease FtableLock s) (\<lambda>s. Ok (None, s)))"

definition filedup :: "nat \<Rightarrow> kst \<Rightarrow> (nat \<times> kst) res" where
  "filedup f s =
    kbind (kacquire FtableLock s) (\<lambda>s.
    if sint (f_ref (fl s f)) < 1 then Panic ''filedup''
    else kbind (krelease FtableLock (upd_file f (\<lambda>x. x\<lparr>f_ref := f_ref x + 1\<rparr>) s)) (\<lambda>s. Ok (f, s)))"

definition fileclose :: "nat \<Rightarrow> kst \<Rightarrow> (kst, unit) run" where
  "fileclose f s =
    rbind (lift0 (kacquire FtableLock s)) (\<lambda>_ s.
    if sint (f_ref (fl s f)) < 1 then Fail (FPanic ''fileclose'')
    else
      let s = upd_file f (\<lambda>x. x\<lparr>f_ref := f_ref x - 1\<rparr>) s
      in if 0 < sint (f_ref (fl s f)) then lift0 (krelease FtableLock s)
         else
           let ff = fl s f
           in rbind (lift0 (krelease FtableLock (upd_file f (\<lambda>x. x\<lparr>f_ref := 0, f_type := FD_NONE\<rparr>) s))) (\<lambda>_ s.
              case f_type ff of
                FD_PIPE \<Rightarrow> lift0 (pipeclose (f_pipe ff) (f_writable ff) s)
              | FD_NONE \<Rightarrow> Done () s
              | _ \<Rightarrow>
                rbind (begin_op s) (\<lambda>_ s. rderef (f_ip ff) (\<lambda>ip.
                rbind (iput ip s) (\<lambda>_ s. end_op s)))))"

text \<open>
  struct stat in memory: four bytes after the short fields are padding; the struct is a local
  variable, so they hold what the stack held (\<open>junk\<close>).
\<close>

definition stat_bytes :: "u8 list \<Rightarrow> stat \<Rightarrow> u8 list" where
  "stat_bytes junk x = le_bytes 4 (st_dev x) @ le_bytes 4 (st_ino x) @ le_bytes 2 (st_type x) @
     le_bytes 2 (st_nlink x) @ take 4 junk @ le_bytes 8 (st_size x)"

definition filestat :: "u8 list \<Rightarrow> nat \<Rightarrow> u64 \<Rightarrow> kst \<Rightarrow> (kst, i32) run" where
  "filestat junk f addr s =
    rbind (lift (myproc s)) (\<lambda>p s.
    if f_type (fl s f) = FD_INODE \<or> f_type (fl s f) = FD_DEVICE then
      rbind (ilock (f_ip (fl s f)) s) (\<lambda>_ s. rderef (f_ip (fl s f)) (\<lambda>ip.
      let x = stati ip s
      in rbind (lift0 (iunlock (f_ip (fl s f)) s)) (\<lambda>_ s. rderef p (\<lambda>p.
         rbind (lift (mget (\<lambda>h. copyout h (p_pagetable (procs s p)) addr (stat_bytes junk x)) s)) (\<lambda>r s.
         Done (if sint r < 0 then - 1 else 0) s)))))
    else Done (- 1) s)"

text \<open>The device table has handlers for the majors that \<open>consoleinit\<close> set.\<close>

definition dev_major :: "nat \<Rightarrow> kst \<Rightarrow> bool" where
  "dev_major f s =
    (0 \<le> sint (f_major (fl s f)) \<and> sint (f_major (fl s f)) < int NDEV \<and> devsw s (unat (f_major (fl s f))))"

definition fileread :: "nat \<Rightarrow> u64 \<Rightarrow> i32 \<Rightarrow> kst \<Rightarrow> (kst, i32) run" where
  "fileread f addr n s =
    (if \<not> f_readable (fl s f) then Done (- 1) s
     else case f_type (fl s f) of
       FD_PIPE \<Rightarrow> piperead (f_pipe (fl s f)) addr n s
     | FD_DEVICE \<Rightarrow> if dev_major f s then consoleread True addr n s else Done (- 1) s
     | FD_INODE \<Rightarrow>
         rbind (ilock (f_ip (fl s f)) s) (\<lambda>_ s. rderef (f_ip (fl s f)) (\<lambda>ip.
         rbind (readi ip (ToUser addr) (f_off (fl s f)) n s) (\<lambda>(r, _) s.
         let s = (if 0 < sint r then upd_file f (\<lambda>x. x\<lparr>f_off := f_off x + r\<rparr>) s else s)
         in rbind (lift0 (iunlock (f_ip (fl s f)) s)) (\<lambda>_. Done r))))
     | FD_NONE \<Rightarrow> Fail (FPanic ''fileread''))"

text \<open>The parts of a write to an inode, at most \<open>max\<close> bytes each: offset and length.\<close>

abbreviation wmax :: nat where "wmax \<equiv> 3 * BSIZE"

function wchunks :: "nat \<Rightarrow> nat \<Rightarrow> (nat \<times> nat) list" where
  "wchunks i n = (if i < n then (i, min (n - i) wmax) # wchunks (i + min (n - i) wmax) n else [])"
  by pat_completeness auto
termination by (relation "measure (\<lambda>(i, n). n - i)") auto

declare wchunks.simps [simp del]

primrec filewrite_loop :: "nat \<Rightarrow> u64 \<Rightarrow> (nat \<times> nat) list \<Rightarrow> nat \<Rightarrow> kst \<Rightarrow> (kst, nat) run" where
  "filewrite_loop f addr [] i s = Done i s"
| "filewrite_loop f addr (c # cs) i s =
    (case c of (_, n1) \<Rightarrow>
     rbind (begin_op s) (\<lambda>_ s.
     rbind (ilock (f_ip (fl s f)) s) (\<lambda>_ s. rderef (f_ip (fl s f)) (\<lambda>ip.
     rbind (writei ip (FromUser (addr + of_nat i)) (f_off (fl s f)) (of_nat n1) s) (\<lambda>r s.
     let s = (if 0 < sint r then upd_file f (\<lambda>x. x\<lparr>f_off := f_off x + r\<rparr>) s else s)
     in rbind (lift0 (iunlock (f_ip (fl s f)) s)) (\<lambda>_ s.
        rbind (end_op s) (\<lambda>_ s.
        if r \<noteq> of_nat n1 then Done i s else filewrite_loop f addr cs (i + n1) s)))))))"

definition filewrite :: "nat \<Rightarrow> u64 \<Rightarrow> i32 \<Rightarrow> kst \<Rightarrow> (kst, i32) run" where
  "filewrite f addr n s =
    (if \<not> f_writable (fl s f) then Done (- 1) s
     else case f_type (fl s f) of
       FD_PIPE \<Rightarrow> pipewrite (f_pipe (fl s f)) addr n s
     | FD_DEVICE \<Rightarrow> if dev_major f s then consolewrite True addr n s else Done (- 1) s
     | FD_INODE \<Rightarrow>
         rbind (filewrite_loop f addr (wchunks 0 (nat (sint n))) 0 s) (\<lambda>i s.
         Done (if int i = sint n then n else - 1) s)
     | FD_NONE \<Rightarrow> Fail (FPanic ''filewrite''))"

section \<open>Creating a pipe\<close>

text \<open>The label bad of \<open>pipealloc\<close>, on the paths where no page was allocated.\<close>

definition pipe_bad :: "nat option \<Rightarrow> nat option \<Rightarrow> kst \<Rightarrow> (kst, (nat \<times> nat) option) run" where
  "pipe_bad f0 f1 s =
    rbind (case f0 of None \<Rightarrow> Done () s | Some f \<Rightarrow> fileclose f s) (\<lambda>_ s.
    rbind (case f1 of None \<Rightarrow> Done () s | Some f \<Rightarrow> fileclose f s) (\<lambda>_ s. Done None s))"

definition pipealloc :: "kst \<Rightarrow> (kst, (nat \<times> nat) option) run" where
  "pipealloc s =
    rbind (lift (filealloc s)) (\<lambda>f0 s. case f0 of None \<Rightarrow> pipe_bad None None s
    | Some a \<Rightarrow> rbind (lift (filealloc s)) (\<lambda>f1 s. case f1 of None \<Rightarrow> pipe_bad f0 None s
    | Some b \<Rightarrow> rbind (lift (mget kalloc s)) (\<lambda>pi s.
      if pi = 0 then pipe_bad f0 f1 s
      else
        let s = upd_pipe pi (\<lambda>x. x\<lparr>pi_readopen := 1, pi_writeopen := 1, pi_nwrite := 0, pi_nread := 0\<rparr>) s;
            s = s\<lparr>mach := initlock (PipeLock pi) ''pipe'' (mach s)\<rparr>;
            s = upd_file a (\<lambda>x. x\<lparr>f_type := FD_PIPE, f_readable := True, f_writable := False, f_pipe := pi\<rparr>) s;
            s = upd_file b (\<lambda>x. x\<lparr>f_type := FD_PIPE, f_readable := False, f_writable := True, f_pipe := pi\<rparr>) s
        in Done (Some (a, b)) s)))"

end
