(* ===== verification/Lifecycle.thy ===== *)
theory Lifecycle
  imports File
begin

text \<open>
  The functions of kernel/proc.c that create and end processes and threads and use the file system
  for it: userinit, fork, exit and kthread_exit; and exec (kernel/exec.c).
\<close>

unbundle bit_operations_syntax

section \<open>The first process\<close>

definition initcode :: "u8 list" where
  "initcode = [0x17, 0x05, 0x00, 0x00, 0x13, 0x05, 0x45, 0x02, 0x97, 0x05, 0x00, 0x00, 0x93, 0x85, 0x35, 0x02,
     0x93, 0x08, 0x70, 0x00, 0x73, 0x00, 0x00, 0x00, 0x93, 0x08, 0x20, 0x00, 0x73, 0x00, 0x00, 0x00,
     0xef, 0xf0, 0x9f, 0xff, 0x2f, 0x69, 0x6e, 0x69, 0x74, 0x00, 0x00, 0x24, 0x00, 0x00, 0x00, 0x00,
     0x00, 0x00, 0x00, 0x00]"

text \<open>\<open>safestrcpy\<close> into one of the 16-byte name fields.\<close>

definition name16 :: "u8 list \<Rightarrow> u8 list" where
  "name16 cs = take 15 cs"

definition userinit :: "kst \<Rightarrow> (kst, unit) run" where
  "userinit s =
    rbind (lift (allocproc s)) (\<lambda>p s. rderef p (\<lambda>p.
    rbind (lift (allocthread p s)) (\<lambda>t s.
    let s = s\<lparr>initproc := Some p\<rparr>
    in rbind (lift0 (mcall (\<lambda>h. uvminit h (p_pagetable (procs s p)) initcode) s)) (\<lambda>_ s. rderef t (\<lambda>t.
       let s = upd_proc p (p_sz_update (\<lambda>_. PGSIZE)) s;
           s = tf_set t TF_epc 0 s;
           s = tf_set t TF_sp PGSIZE s;
           s = upd_proc p (p_name_update (\<lambda>_. name16 (ascii ''initcode''))) s;
           s = upd_thr t (t_name_update (\<lambda>_. name16 (ascii ''initcode''))) s
       in rbind (namei [slash] s) (\<lambda>ip s.
          let s = upd_proc p (\<lambda>q. q\<lparr>p_cwd := ip, p_state := RUNNABLE\<rparr>) s;
              s = upd_thr t (t_state_update (\<lambda>_. T_RUNNABLE)) s
          in lift0 (krelease (ProcLock p) s)))))))"

section \<open>fork\<close>

definition fork_file :: "nat \<Rightarrow> nat \<Rightarrow> nat \<Rightarrow> kst \<Rightarrow> kst res" where
  "fork_file p np i s =
    (case p_ofile (procs s p) i of None \<Rightarrow> Ok s
     | Some f \<Rightarrow> kbind (filedup f s) (\<lambda>(f, s).
         Ok (upd_proc np (\<lambda>q. q\<lparr>p_ofile := (p_ofile q)(i := Some f)\<rparr>) s)))"

definition fork :: "kst \<Rightarrow> (i32 \<times> kst) res" where
  "fork s =
    kbind (myproc s) (\<lambda>(p, s).
    kbind (mythread s) (\<lambda>(t, s).
    kbind (allocproc s) (\<lambda>(np, s). case np of None \<Rightarrow> Ok (- 1, s)
    | Some np \<Rightarrow>
      kbind (allocthread np s) (\<lambda>(nt, s). case nt of None \<Rightarrow> Ok (- 1, s)
      | Some nt \<Rightarrow> deref p (\<lambda>p. deref t (\<lambda>t.
        kbind (mget (\<lambda>h. uvmcopy h (p_pagetable (procs s p)) (p_pagetable (procs s np)) (p_sz (procs s p))) s)
          (\<lambda>(r, s).
        if sint r < 0 then
          kbind (freeproc np s) (\<lambda>s. kbind (krelease (ProcLock np) s) (\<lambda>s. Ok (- 1, s)))
        else
          let s = upd_proc np (p_sz_update (\<lambda>_. p_sz (procs s p))) s;
              s = upd_mem (\<lambda>m. memmove m (t_trapframe (thr s nt)) (t_trapframe (thr s t)) TF_size) s;
              s = tf_set nt TF_a0 0 s;
              s = upd_proc np (\<lambda>q. q\<lparr>p_mask := p_mask (procs s p),
                    p_handlers := (\<lambda>i. if i < 32 then p_handlers (procs s p) i else p_handlers q i),
                    p_masks := (\<lambda>i. if i < 32 then p_masks (procs s p) i else p_masks q i)\<rparr>) s
          in kbind (kfor (fork_file p np) [0..<NOFILE] s) (\<lambda>s. deref (p_cwd (procs s p)) (\<lambda>cwd.
             kbind (idup cwd s) (\<lambda>(ip, s).
             let s = upd_proc np (\<lambda>q. q\<lparr>p_cwd := Some ip, p_name := name16 (p_name (procs s p))\<rparr>) s;
                 s = upd_thr nt (t_name_update (\<lambda>_. name16 (t_name (thr s t)))) s;
                 pid = p_pid (procs s np)
             in kbind (krelease (ProcLock np) s) (\<lambda>s.
                kbind (kacquire WaitLock s) (\<lambda>s.
                kbind (krelease WaitLock (upd_proc np (p_parent_update (\<lambda>_. Some p)) s)) (\<lambda>s.
                kbind (kacquire (ProcLock np) s) (\<lambda>s.
                let s = upd_proc np (p_state_update (\<lambda>_. RUNNABLE)) s;
                    s = upd_thr nt (t_state_update (\<lambda>_. T_RUNNABLE)) s
                in kbind (krelease (ProcLock np) s) (\<lambda>s. Ok (pid, s))))))))))))))))"

section \<open>exit\<close>

definition exit_file :: "nat \<Rightarrow> nat \<Rightarrow> kst \<Rightarrow> (kst, unit) run" where
  "exit_file p fd s =
    (case p_ofile (procs s p) fd of None \<Rightarrow> Done () s
     | Some f \<Rightarrow> rbind (fileclose f s) (\<lambda>_ s.
         Done () (upd_proc p (\<lambda>q. q\<lparr>p_ofile := (p_ofile q)(fd := None)\<rparr>) s)))"

definition kexit :: "i32 \<Rightarrow> kst \<Rightarrow> (kst, unit) run" where
  "kexit status s =
    rbind (lift (myproc s)) (\<lambda>p s.
    if p = initproc s then Fail (FPanic ''init exiting'')
    else
      rbind (lift (mythread s)) (\<lambda>t s. rderef t (\<lambda>t.
      rbind (kill_all_threads_besides_myself_and_wait t s) (\<lambda>_ s. rderef p (\<lambda>p.
      rbind (rfor (exit_file p) [0..<NOFILE] s) (\<lambda>_ s.
      rbind (begin_op s) (\<lambda>_ s. rderef (p_cwd (procs s p)) (\<lambda>cwd.
      rbind (iput cwd s) (\<lambda>_ s.
      rbind (end_op s) (\<lambda>_ s.
      rbind (lift0 (kacquire WaitLock (upd_proc p (p_cwd_update (\<lambda>_. None)) s))) (\<lambda>_ s.
      rbind (lift0 (reparent p s)) (\<lambda>_ s.
      rbind (lift0 (wakeup (map_option ChProc (p_parent (procs s p))) s)) (\<lambda>_ s.
      rbind (lift0 (wakeup (Some (ChThread (fst t) (snd t))) s)) (\<lambda>_ s.
      rbind (lift0 (kacquire (ProcLock p) s)) (\<lambda>_ s.
      let s = upd_proc p (\<lambda>q. q\<lparr>p_xstate := status, p_state := ZOMBIE\<rparr>) s;
          s = upd_thr t (t_state_update (\<lambda>_. T_ZOMBIE)) s
      in rbind (lift0 (krelease WaitLock s)) (\<lambda>_ s.
         rbind (sched s) (\<lambda>_ s. Fail (FPanic ''zombie exit''))))))))))))))))))"

definition kthread_exit :: "i32 \<Rightarrow> kst \<Rightarrow> (kst, unit) run" where
  "kthread_exit status s =
    rbind (lift (myproc s)) (\<lambda>p s. rderef p (\<lambda>p.
    rbind (lift0 (kacquire (ProcLock p) s)) (\<lambda>_ s.
    rbind (lift (mythread s)) (\<lambda>t s. rderef t (\<lambda>t.
    rbind (lift (kbind (check_if_last t s) (\<lambda>b. Ok (b, s)))) (\<lambda>am_i_last s.
    rbind (lift0 (krelease (ProcLock p) s)) (\<lambda>_ s.
    if am_i_last then kexit status s
    else
      rbind (lift0 (kacquire WaitLock s)) (\<lambda>_ s.
      rbind (lift0 (wakeup (Some (ChThread (fst t) (snd t))) s)) (\<lambda>_ s.
      rbind (lift0 (kacquire (ProcLock p) s)) (\<lambda>_ s.
      let s = upd_thr t (\<lambda>x. x\<lparr>t_xstate := status, t_state := T_ZOMBIE\<rparr>) s
      in rbind (lift (kbind (check_if_last t s) (\<lambda>b. Ok (b, s)))) (\<lambda>lst s.
         rbind (if lst then
             rbind (lift0 (krelease (ProcLock p) s)) (\<lambda>_ s.
             rbind (lift0 (krelease WaitLock s)) (\<lambda>_ s. kexit status s))
           else Done () s) (\<lambda>_ s.
         rbind (lift0 (krelease WaitLock s)) (\<lambda>_ s.
         rbind (sched s) (\<lambda>_ s. Fail (FPanic ''zombie thread exit'')))))))))))))))"

section \<open>exec\<close>

abbreviation MAXARG :: nat where "MAXARG \<equiv> 32"
abbreviation ELF_MAGIC :: u32 where "ELF_MAGIC \<equiv> 0x464C457F"

definition get_u64 :: "nat \<Rightarrow> u8 list \<Rightarrow> u64" where
  "get_u64 off data = le_word (take 8 (drop off data))"

text \<open>The pages of a segment, by their offset in it.\<close>

primrec loadseg_loop :: "u64 \<Rightarrow> u64 \<Rightarrow> nat \<Rightarrow> u32 \<Rightarrow> u32 \<Rightarrow> nat list \<Rightarrow> kst \<Rightarrow> (kst, i32) run" where
  "loadseg_loop pagetable va ip offset sz [] s = Done 0 s"
| "loadseg_loop pagetable va ip offset sz (i # is) s =
    rbind (lift (kbind (walkaddr (hart s) pagetable (va + of_nat i) (mach s)) (\<lambda>pa. Ok (pa, s)))) (\<lambda>pa s.
    if pa = 0 then Fail (FPanic ''loadseg: address should exist'')
    else
      let n = (if sz - of_nat i < 4096 then sz - of_nat i else 4096)
      in rbind (readi ip (ToKernel pa) (offset + of_nat i) n s) (\<lambda>(r, _) s.
         if r \<noteq> n then Done (- 1) s else loadseg_loop pagetable va ip offset sz is s))"

definition loadseg :: "u64 \<Rightarrow> u64 \<Rightarrow> nat \<Rightarrow> u32 \<Rightarrow> u32 \<Rightarrow> kst \<Rightarrow> (kst, i32) run" where
  "loadseg pagetable va ip offset sz s =
    (if va mod PGSIZE \<noteq> 0 then Fail (FPanic ''loadseg: va must be page aligned'')
     else loadseg_loop pagetable va ip offset sz (map (\<lambda>k. k * 4096) [0..<(unat sz + 4095) div 4096]) s)"

text \<open>The loop over the program headers: whether it ended without an error, and the size reached.\<close>

primrec exec_load :: "nat \<Rightarrow> u64 \<Rightarrow> u32 \<Rightarrow> nat list \<Rightarrow> u64 \<Rightarrow> kst \<Rightarrow> (kst, bool \<times> u64) run" where
  "exec_load ip pagetable phoff [] sz s = Done (True, sz) s"
| "exec_load ip pagetable phoff (i # is) sz s =
    rbind (readi ip ToLocal (phoff + of_nat i * 56) 56 s) (\<lambda>(r, ph) s.
    if r \<noteq> 56 then Done (False, sz) s
    else if get_u32 0 ph \<noteq> 1 then exec_load ip pagetable phoff is sz s
    else
      let off = get_u64 8 ph; vaddr = get_u64 16 ph; filesz = get_u64 32 ph; memsz = get_u64 40 ph
      in if memsz < filesz then Done (False, sz) s
         else if vaddr + memsz < vaddr then Done (False, sz) s
         else rbind (lift (mget (\<lambda>h. uvmalloc h pagetable sz (vaddr + memsz)) s)) (\<lambda>sz1 s.
           if sz1 = 0 then Done (False, sz) s
           else if vaddr mod PGSIZE \<noteq> 0 then Done (False, sz1) s
           else rbind (loadseg pagetable vaddr ip (ucast off) (ucast filesz) s) (\<lambda>r s.
             if sint r < 0 then Done (False, sz1) s
             else exec_load ip pagetable phoff is sz1 s)))"

text \<open>Pushing the argument strings: None is the jump to bad.\<close>

primrec exec_push :: "u64 \<Rightarrow> u64 \<Rightarrow> u8 list list \<Rightarrow> u64 \<Rightarrow> u64 list \<Rightarrow> kst \<Rightarrow> ((u64 \<times> u64 list) option \<times> kst) res" where
  "exec_push pagetable stackbase [] sp us s = Ok (Some (sp, us), s)"
| "exec_push pagetable stackbase (a # args) sp us s =
    (if length us \<ge> MAXARG then Ok (None, s)
     else
       let sp = sp - (of_nat (length a) + 1); sp = sp - sp mod 16
       in if sp < stackbase then Ok (None, s)
          else kbind (mget (\<lambda>h. copyout h pagetable sp (a @ [0])) s) (\<lambda>(r, s).
            if sint r < 0 then Ok (None, s)
            else exec_push pagetable stackbase args sp (us @ [sp]) s))"

definition exec_bad :: "u64 \<Rightarrow> u64 \<Rightarrow> nat option \<Rightarrow> kst \<Rightarrow> (kst, i32) run" where
  "exec_bad pagetable sz ip s =
    rbind (lift0 (if pagetable \<noteq> 0 then proc_freepagetable pagetable sz s else Ok s)) (\<lambda>_ s.
    case ip of None \<Rightarrow> Done (- 1) s
    | Some ip \<Rightarrow> rbind (iunlockput ip s) (\<lambda>_ s. rbind (end_op s) (\<lambda>_ s. Done (- 1) s)))"

text \<open>The part of \<open>exec\<close> after the program is loaded: the stack, and the commit to the new image.\<close>

definition exec_stack :: "u8 list \<Rightarrow> u8 list list \<Rightarrow> nat \<times> nat \<Rightarrow> u64 \<Rightarrow> u64 \<Rightarrow> u64 \<Rightarrow> kst \<Rightarrow> (kst, i32) run" where
  "exec_stack path argv t pagetable sz entry s =
    rbind (lift (myproc s)) (\<lambda>p s. rderef p (\<lambda>p.
    let oldsz = p_sz (procs s p); sz = PGROUNDUP sz
    in rbind (lift (mget (\<lambda>h. uvmalloc h pagetable sz (sz + 2 * PGSIZE)) s)) (\<lambda>sz1 s.
       if sz1 = 0 then exec_bad pagetable sz None s
       else
         rbind (lift0 (mcall (\<lambda>h. uvmclear h pagetable (sz1 - 2 * PGSIZE)) s)) (\<lambda>_ s.
         let stackbase = sz1 - PGSIZE
         in rbind (lift (exec_push pagetable stackbase argv sz1 [] s)) (\<lambda>r s. case r of
              None \<Rightarrow> exec_bad pagetable sz1 None s
            | Some (sp, us) \<Rightarrow>
              let argc = length us; sp = sp - (of_nat argc + 1) * 8; sp = sp - sp mod 16
              in if sp < stackbase then exec_bad pagetable sz1 None s
                 else rbind (lift (mget (\<lambda>h. copyout h pagetable sp (concat (map (le_bytes 8) (us @ [0])))) s)) (\<lambda>r s.
                   if sint r < 0 then exec_bad pagetable sz1 None s
                   else
                     let s = tf_set t 120 sp s;
                         lasta = rev (takeWhile (\<lambda>c. c \<noteq> slash) (rev path));
                         s = upd_proc p (p_name_update (\<lambda>_. name16 lasta)) s;
                         s = upd_thr t (t_name_update (\<lambda>_. name16 lasta)) s;
                         old = p_pagetable (procs s p);
                         s = upd_proc p (\<lambda>q. q\<lparr>p_pagetable := pagetable, p_sz := sz1\<rparr>) s;
                         s = tf_set t TF_epc entry s;
                         s = tf_set t TF_sp sp s
                     in rbind (lift0 (proc_freepagetable old oldsz s)) (\<lambda>_. Done (of_nat argc))))))))"

definition reset_handlers :: "proc \<Rightarrow> proc" where
  "reset_handlers q = q\<lparr>p_handlers := (\<lambda>i. if i < 32 \<and> p_handlers q i \<noteq> SIG_IGN then SIG_DFL else p_handlers q i),
     p_masks := (\<lambda>i. if i < 32 \<and> p_handlers q i \<noteq> SIG_IGN then - 1 else p_masks q i)\<rparr>"

definition exec :: "u8 list \<Rightarrow> u8 list list \<Rightarrow> kst \<Rightarrow> (kst, i32) run" where
  "exec path argv s =
    rbind (lift (myproc s)) (\<lambda>p s.
    rbind (lift (mythread s)) (\<lambda>t s. rderef t (\<lambda>t.
    rbind (kill_all_threads_besides_myself_and_wait t s) (\<lambda>_ s. rderef p (\<lambda>p.
    rbind (lift0 (kacquire (ProcLock p) s)) (\<lambda>_ s.
    rbind (lift0 (krelease (ProcLock p) (upd_proc p reset_handlers s))) (\<lambda>_ s.
    rbind (begin_op s) (\<lambda>_ s.
    rbind (namei path s) (\<lambda>ipo s. case ipo of
      None \<Rightarrow> rbind (end_op s) (\<lambda>_ s. Done (- 1) s)
    | Some ip \<Rightarrow>
      rbind (ilock (Some ip) s) (\<lambda>_ s.
      rbind (readi ip ToLocal 0 64 s) (\<lambda>(r, elf) s.
      if r \<noteq> 64 then exec_bad 0 0 (Some ip) s
      else if get_u32 0 elf \<noteq> ELF_MAGIC then exec_bad 0 0 (Some ip) s
      else rbind (lift (proc_pagetable p s)) (\<lambda>pagetable s.
        if pagetable = 0 then exec_bad 0 0 (Some ip) s
        else rbind (exec_load ip pagetable (ucast (get_u64 32 elf)) [0..<unat (get_u16 56 elf)] 0 s) (\<lambda>(ok, sz) s.
          if \<not> ok then exec_bad pagetable sz (Some ip) s
          else
            rbind (iunlockput ip s) (\<lambda>_ s.
            rbind (end_op s) (\<lambda>_ s.
            exec_stack path argv t pagetable sz (get_u64 24 elf) s)))))))))))))))"

end
