(* ===== verification/Signals.thy ===== *)
theory Signals
  imports Procs
begin

text \<open>
  Signals (kernel/proc.c, kernel/trap.c): sending a signal, masks and handlers, the frame a user
  handler runs in and the return from it.  \<open>kill_signal\<close> is what \<open>kill\<close> does to the process it found,
  in the order of the code's tests.
\<close>

unbundle bit_operations_syntax

definition sig_bit :: "nat \<Rightarrow> u32" where
  "sig_bit n = push_bit n 1"

section \<open>Sending a signal\<close>

definition handle_SIGKILL :: "nat \<Rightarrow> proc \<Rightarrow> proc" where
  "handle_SIGKILL signum p =
    (let p = p\<lparr>p_pending := p_pending p OR sig_bit signum, p_killed := 1\<rparr>
     in case find (\<lambda>j. t_state (p_threads p j) = T_SLEEPING) [0..<NTHREAD] of
          None \<Rightarrow> p
        | Some j \<Rightarrow> p\<lparr>p_threads := (p_threads p)(j := (p_threads p j)\<lparr>t_state := T_RUNNABLE\<rparr>)\<rparr>)"

definition kill_signal :: "nat \<Rightarrow> proc \<Rightarrow> proc" where
  "kill_signal signum p =
    (let handler = p_handlers p signum; unblocked = (p_mask p AND sig_bit signum = 0)
     in if signum = SIGKILL \<or> handler = of_nat SIGKILL then
          (if unblocked then handle_SIGKILL signum p else p)
        else if signum \<noteq> SIGSTOP \<and> signum \<noteq> SIGCONT \<and> handler = SIG_DFL then
          (if unblocked then handle_SIGKILL signum p else p)
        else if signum = SIGSTOP then p\<lparr>p_counter := p_counter p + 1, p_stopped := 1\<rparr>
        else if handler = of_nat SIGSTOP then
          (if unblocked then
             let p = p\<lparr>p_counter := p_counter p + 1, p_stopped := 1\<rparr>;
                 p = (if p_counter p = 1 then p\<lparr>p_mask_backup := p_mask p\<rparr> else p)
             in p\<lparr>p_mask := p_masks p signum\<rparr>
           else p)
        else if (signum = SIGCONT \<and> handler = SIG_DFL) \<or> handler = of_nat SIGCONT then
          (if unblocked then
             let p = (if p_stopped p = 1 then p\<lparr>p_counter := p_counter p - 1, p_mask := p_mask_backup p\<rparr> else p)
             in p\<lparr>p_stopped := 0\<rparr>
           else p)
        else p\<lparr>p_pending := p_pending p OR sig_bit signum\<rparr>)"

primrec kill_scan :: "i32 \<Rightarrow> nat \<Rightarrow> nat list \<Rightarrow> kst \<Rightarrow> (i32 \<times> kst) res" where
  "kill_scan pid signum [] s = Ok (- 1, s)"
| "kill_scan pid signum (p # ps) s =
    kbind (kacquire (ProcLock p) s) (\<lambda>s.
    if p_pid (procs s p) = pid \<and> p_state (procs s p) = UNUSED then Ok (- 1, s)
    else if p_pid (procs s p) = pid \<and> p_handlers (procs s p) signum \<noteq> SIG_IGN then
      kbind (krelease (ProcLock p) (upd_proc p (kill_signal signum) s)) (\<lambda>s. Ok (0, s))
    else kbind (krelease (ProcLock p) s) (kill_scan pid signum ps))"

definition kill :: "i32 \<Rightarrow> i32 \<Rightarrow> kst \<Rightarrow> (i32 \<times> kst) res" where
  "kill pid signum s =
    (if sint signum < 0 \<or> 31 < sint signum \<or> pid = 0 then Ok (- 1, s)
     else kill_scan pid (unat signum) [0..<NPROC] s)"

section \<open>Masks and handlers\<close>

definition check_valid_mask :: "u32 \<Rightarrow> i32" where
  "check_valid_mask sigmask =
    (if sigmask AND sig_bit SIGKILL OR sigmask AND sig_bit SIGSTOP \<noteq> 0 then - 1
     else if sigmask < 0 then - 1 else 1)"

definition sigprocmask :: "u32 \<Rightarrow> kst \<Rightarrow> (u32 \<times> kst) res" where
  "sigprocmask sigmask s =
    kbind (myproc s) (\<lambda>(p, s). deref p (\<lambda>p.
    kbind (kacquire (ProcLock p) s) (\<lambda>s.
    let oldsigmask = p_mask (procs s p)
    in kbind (krelease (ProcLock p)
           (if check_valid_mask sigmask = - 1 then s else upd_proc p (p_mask_update (\<lambda>_. sigmask)) s))
         (\<lambda>s. Ok (oldsigmask, s)))))"

text \<open>
  \<open>sigaction\<close> copies the new handler into a struct on its stack: \<open>junk\<close> is what its sixteen bytes
  hold before, which stays there where \<open>copyin\<close> fails.
\<close>

definition sigaction_old :: "nat \<Rightarrow> u64 \<Rightarrow> nat \<Rightarrow> kst \<Rightarrow> kst res" where
  "sigaction_old signum oldact p s =
    (let pt = p_pagetable (procs s p)
     in kbind (mget (\<lambda>h. copyout h pt oldact (le_bytes 8 (p_handlers (procs s p) signum))) s) (\<lambda>(_, s).
        kbind (mget (\<lambda>h. copyout h pt (oldact + 8) (le_bytes 4 (p_masks (procs s p) signum))) s) (\<lambda>(_, s).
        Ok s)))"

definition sigaction :: "u8 list \<Rightarrow> i32 \<Rightarrow> u64 \<Rightarrow> u64 \<Rightarrow> kst \<Rightarrow> (i32 \<times> kst) res" where
  "sigaction junk signum act oldact s =
    (if sint signum < 0 \<or> 31 < sint signum \<or> signum = of_nat SIGKILL \<or> signum = of_nat SIGSTOP then Ok (- 1, s)
     else
       let n = unat signum
       in kbind (myproc s) (\<lambda>(p, s). deref p (\<lambda>p.
          kbind (kacquire (ProcLock p) s) (\<lambda>s.
          kbind (if oldact \<noteq> 0 then sigaction_old n oldact p s else Ok s) (\<lambda>s.
          if act \<noteq> 0 then
            kbind (copyin (hart s) (p_pagetable (procs s p)) act 16 (mach s)) (\<lambda>(_, bs).
            let bs = bs @ drop (length bs) junk; mask = le_word (take 4 (drop 8 bs))
            in if check_valid_mask mask = - 1 then Ok (- 1, s)
               else kbind (krelease (ProcLock p) (upd_proc p (\<lambda>q. q\<lparr>
                        p_handlers := (p_handlers q)(n := le_word (take 8 bs)),
                        p_masks := (p_masks q)(n := mask)\<rparr>) s)) (\<lambda>s. Ok (0, s)))
          else kbind (krelease (ProcLock p) s) (\<lambda>s. Ok (0, s)))))))"

section \<open>User handlers\<close>

definition sigret :: "kst \<Rightarrow> kst res" where
  "sigret s =
    kbind (mythread s) (\<lambda>(t, s). deref t (\<lambda>t.
    Ok (upd_mem (\<lambda>m. memmove m (t_trapframe (thr s t)) (t_backup (thr s t)) TF_size) s)))"

text \<open>The code that a handler returns to: li a7, SYS_sigret; ecall.\<close>

definition sigret_code :: "u8 list" where
  "sigret_code = [0x93, 0x08, 0x80, 0x01, 0x73, 0x00, 0x00, 0x00]"

definition user_signal_handlng :: "nat \<Rightarrow> nat \<Rightarrow> kst \<Rightarrow> kst res" where
  "user_signal_handlng p signum s =
    kbind (mythread s) (\<lambda>(t, s). deref t (\<lambda>t.
    let s = upd_mem (\<lambda>m. memmove m (t_backup (thr s t)) (t_trapframe (thr s t)) TF_size) s
    in kbind (mget (\<lambda>h. copyout h (p_pagetable (procs s p)) (tf_get s t TF_sp) sigret_code) s) (\<lambda>(_, s).
       let s = tf_set t TF_ra (tf_get s t TF_sp) s;
           s = tf_set t TF_sp (tf_get s t TF_sp - 8) s;
           s = tf_set t TF_a0 (of_nat signum) s
       in Ok (tf_set t TF_epc (p_handlers (procs s p) signum) s))))"

end
