(* ===== verification/Bsem.thy ===== *)
theory Bsem
  imports Sched
begin

text \<open>
  The binary semaphores of kernel/proc.c.  A waiting thread puts itself into the array of the
  semaphore and gives up the CPU; an up hands the semaphore to the first thread of the array, which
  then returns from its down without touching the semaphore again.

  Part two composes the operations of any number of threads into an interleaved system and shows
  that the semaphore excludes: the hand-over is the reason why nothing but the up may wake a waiter.
\<close>

section \<open>The operations\<close>

definition bsem_alloc :: "kst \<Rightarrow> (i32 \<times> kst) res" where
  "bsem_alloc s =
    kbind (kacquire BsemTableLock s) (\<lambda>s.
    let r = find (\<lambda>i. bs_descriptor (bsems s i) = - 1) [0..<MAX_BSEM];
        s = (case r of None \<Rightarrow> s | Some i \<Rightarrow> upd_bsem i (bs_descriptor_update (\<lambda>_. of_nat i)) s)
    in kbind (krelease BsemTableLock s) (\<lambda>s.
       case r of None \<Rightarrow> Ok (- 1, s)
       | Some i \<Rightarrow>
         let s = upd_bsem i (\<lambda>b. b\<lparr>bs_free := 1,
               bs_threads := (\<lambda>j. if j < NPROC * NTHREAD then None else bs_threads b j)\<rparr>) s
         in Ok (of_nat i, s\<lparr>mach := initlock (BsemLock i) ''binary_semaphores_array_lock'' (mach s)\<rparr>)))"

text \<open>The element of the array that a descriptor names; there is no check of the bounds.\<close>

definition bsem_index :: "i32 \<Rightarrow> nat option" where
  "bsem_index d = (if 0 \<le> sint d \<and> unat d < MAX_BSEM then Some (unat d) else None)"

definition bsem_free :: "i32 \<Rightarrow> kst \<Rightarrow> kst res" where
  "bsem_free descriptor s =
    kbind (kacquire BsemTableLock s) (\<lambda>s.
    deref (bsem_index descriptor) (\<lambda>d.
    krelease BsemTableLock (upd_bsem d (bs_descriptor_update (\<lambda>_. - 1)) s)))"

definition bsem_down :: "i32 \<Rightarrow> kst \<Rightarrow> (kst, unit) run" where
  "bsem_down descriptor s =
    rbind (lift (myproc s)) (\<lambda>p s.
    rderef (bsem_index descriptor) (\<lambda>d.
    rbind (lift0 (kacquire (BsemLock d) s)) (\<lambda>_ s.
    if bs_free (bsems s d) = 0 then
      rbind (lift (mythread s)) (\<lambda>t s. rderef p (\<lambda>p. rderef t (\<lambda>t.
      let index = p * NTHREAD + snd t;
          s = upd_bsem d (\<lambda>b. b\<lparr>bs_threads := (bs_threads b)(index := Some t)\<rparr>) s
      in rbind (lift0 (kacquire (ProcLock p) s)) (\<lambda>_ s.
         rbind (lift0 (krelease (BsemLock d) (upd_thr t (t_state_update (\<lambda>_. T_SLEEPING)) s))) (\<lambda>_ s.
         rbind (sched s) (\<lambda>_ s. lift0 (krelease (ProcLock p) s)))))))
    else lift0 (krelease (BsemLock d) (upd_bsem d (bs_free_update (\<lambda>_. 0)) s)))))"

definition bsem_up :: "i32 \<Rightarrow> kst \<Rightarrow> kst res" where
  "bsem_up descriptor s =
    deref (bsem_index descriptor) (\<lambda>d.
    kbind (kacquire (BsemLock d) s) (\<lambda>s.
    case find (\<lambda>j. bs_threads (bsems s d) j \<noteq> None) [0..<NPROC * NTHREAD] of
      Some j \<Rightarrow> deref (bs_threads (bsems s d) j) (\<lambda>t.
        kbind (myproc s) (\<lambda>(p, s). deref p (\<lambda>p.
        kbind (kacquire (ProcLock p) s) (\<lambda>s.
        let s = upd_thr t (t_state_update (\<lambda>_. T_RUNNABLE)) s
        in kbind (myproc s) (\<lambda>(p, s). deref p (\<lambda>p.
           kbind (krelease (ProcLock p) s) (\<lambda>s.
           krelease (BsemLock d) (upd_bsem d (\<lambda>b. b\<lparr>bs_threads := (bs_threads b)(j := None)\<rparr>) s))))))))
    | None \<Rightarrow> krelease (BsemLock d) (upd_bsem d (bs_free_update (\<lambda>_. 1)) s)))"

section \<open>What the operations do\<close>

text \<open>The thread \<open>(p, t)\<close> is about to call an operation of semaphore \<open>d\<close>, with no lock held.\<close>

definition ready :: "nat \<Rightarrow> nat \<Rightarrow> nat \<Rightarrow> kst \<Rightarrow> bool" where
  "ready d p t s = (runs p t s \<and> kok s \<and> cpu_noff (mycpu s) = 0 \<and> lock_free (BsemLock d) (mach s) \<and>
     lock_free (ProcLock p) (mach s) \<and> p < NPROC \<and> t < NTHREAD \<and> d < MAX_BSEM)"

lemma bsem_index_of_nat [simp]: "d < MAX_BSEM \<Longrightarrow> bsem_index (of_nat d) = Some d"
  by (simp add: bsem_index_def unat_of_nat_small sint_of_nat_small)

lemma bsem_down_free:
  assumes "ready d p t s" and "bs_free (bsems s d) \<noteq> 0"
  shows "bsem_down (of_nat d) s = Done () (ktouch (upd_bsem d (bs_free_update (\<lambda>_. 0)) s))"
  using assms by (simp add: bsem_down_def ready_def runs_def lock_simps)

definition waits_for :: "nat \<Rightarrow> nat \<Rightarrow> nat \<Rightarrow> kst \<Rightarrow> kst" where
  "waits_for d p t s = (upd_thr (p, t) (t_state_update (\<lambda>_. T_SLEEPING))
     (upd_bsem d (\<lambda>b. b\<lparr>bs_threads := (bs_threads b)(p * NTHREAD + t := Some (p, t))\<rparr>) s))
     \<lparr>mach := locked_by (hart s) (ProcLock p) (mach s)\<rparr>"

lemma bsem_down_blocks:
  assumes r: "ready d p t s" and "bs_free (bsems s d) = 0"
  shows "bsem_down (of_nat d) s = Swtch (waits_for d p t s) (\<lambda>s'. lift0 (krelease (ProcLock p)
    (upd_mycpu (hart s') (cpu_intena_update (\<lambda>_. cpu_intena (mycpu (waits_for d p t s)))) s')))"
proof -
  have "sched (waits_for d p t s) = Swtch (ktouch (waits_for d p t s)) (\<lambda>s'. Done () (upd_mycpu (hart s')
       (cpu_intena_update (\<lambda>_. cpu_intena (mycpu (waits_for d p t s)))) s'))"
    using r by (intro sched_leaves [where p = p and t = t])
      (simp_all add: waits_for_def ready_def runs_def mycpu_def cpuid_def lock_simps)
  moreover have "ktouch (waits_for d p t s) = waits_for d p t s"
    by (simp add: waits_for_def lock_simps)
  ultimately show ?thesis
    using assms by (simp add: bsem_down_def ready_def runs_def lock_simps waits_for_def)
qed

lemma bsem_up_hands:
  assumes "ready d p t s" and "find (\<lambda>j. bs_threads (bsems s d) j \<noteq> None) [0..<NPROC * NTHREAD] = Some j"
    and "bs_threads (bsems s d) j = Some b"
  shows "bsem_up (of_nat d) s = Ok (ktouch (upd_bsem d (\<lambda>x. x\<lparr>bs_threads := (bs_threads x)(j := None)\<rparr>)
    (upd_thr b (t_state_update (\<lambda>_. T_RUNNABLE)) s)))"
  using assms by (simp add: bsem_up_def ready_def runs_def lock_simps mycpu_def cpuid_def)

lemma bsem_up_frees:
  assumes "ready d p t s" and "find (\<lambda>j. bs_threads (bsems s d) j \<noteq> None) [0..<NPROC * NTHREAD] = None"
  shows "bsem_up (of_nat d) s = Ok (ktouch (upd_bsem d (bs_free_update (\<lambda>_. 1)) s))"
  using assms by (simp add: bsem_up_def ready_def runs_def lock_simps mycpu_def cpuid_def)

section \<open>The interleaved system\<close>

text \<open>
  A state of the system is the kernel state, the threads that are past their down and not yet past
  their up (\<open>H\<close>), and the threads that gave up the CPU inside a down, with the code they have yet to
  run (\<open>B\<close>).  A step is an operation of one thread up to its end or its switch, the dispatch of a
  blocked thread that is runnable, or anything else the kernel does that leaves the semaphore alone
  and does not change the state of a blocked thread.  A hart that dispatches \<open>(p, t)\<close> marks it running and
  holds the lock of its process and no other.
\<close>

type_synonym bcfg = "kst \<times> (nat \<times> nat) set \<times> (nat \<times> nat \<rightharpoonup> (kst \<Rightarrow> (kst, unit) run))"

definition dispatched :: "nat \<Rightarrow> nat \<Rightarrow> kst \<Rightarrow> kst \<Rightarrow> bool" where
  "dispatched p t s s' = (\<exists>h m. s' = (upd_thr (p, t) (t_state_update (\<lambda>_. T_RUNNING)) s)
       \<lparr>hart := h, mach := locked_by h (ProcLock p) m\<rparr> \<and> lock_free (ProcLock p) m \<and> cpu_noff (cpus m h) = 0)"

inductive bsys :: "nat \<Rightarrow> bcfg \<Rightarrow> bcfg \<Rightarrow> bool" for d where
  down_takes: "ready d p t s \<Longrightarrow> (p, t) \<notin> H \<Longrightarrow> B (p, t) = None \<Longrightarrow> bsem_down (of_nat d) s = Done () s' \<Longrightarrow>
    bsys d (s, H, B) (s', insert (p, t) H, B)"
| down_waits: "ready d p t s \<Longrightarrow> (p, t) \<notin> H \<Longrightarrow> B (p, t) = None \<Longrightarrow> bsem_down (of_nat d) s = Swtch s' k \<Longrightarrow>
    bsys d (s, H, B) (s', H, B((p, t) \<mapsto> k))"
| down_returns: "B (p, t) = Some k \<Longrightarrow> t_state (thr s (p, t)) = T_RUNNABLE \<Longrightarrow> dispatched p t s s1 \<Longrightarrow>
    k s1 = Done () s' \<Longrightarrow> bsys d (s, H, B) (s', insert (p, t) H, B((p, t) := None))"
| up_done: "ready d p t s \<Longrightarrow> (p, t) \<in> H \<Longrightarrow> bsem_up (of_nat d) s = Ok s' \<Longrightarrow>
    bsys d (s, H, B) (s', H - {(p, t)}, B)"
| other: "bsems s' d = bsems s d \<Longrightarrow> \<forall>b \<in> dom B. t_state (thr s' b) = t_state (thr s b) \<Longrightarrow>
    bsys d (s, H, B) (s', H, B)"

text \<open>
  The invariant: the entries of the array are the blocked threads that still sleep; a blocked thread
  that does not has been handed the semaphore; and one thread has it, or it is free and none waits.
\<close>

definition slot_of :: "nat \<times> nat \<Rightarrow> nat" where
  "slot_of b = fst b * NTHREAD + snd b"

definition handed :: "kst \<Rightarrow> (nat \<times> nat) set \<Rightarrow> (nat \<times> nat) set" where
  "handed s D = {b \<in> D. t_state (thr s b) = T_RUNNABLE}"

fun binv :: "nat \<Rightarrow> bcfg \<Rightarrow> bool" where
  "binv d (s, H, B) =
    ((\<forall>j b. bs_threads (bsems s d) j = Some b \<longrightarrow> j = slot_of b \<and> b \<in> dom B \<and> t_state (thr s b) = T_SLEEPING) \<and>
     (\<forall>b \<in> dom B. fst b < NPROC \<and> snd b < NTHREAD \<and> (t_state (thr s b) = T_RUNNABLE \<or>
        t_state (thr s b) = T_SLEEPING \<and> bs_threads (bsems s d) (slot_of b) = Some b)) \<and>
     H \<inter> dom B = {} \<and>
     (if bs_free (bsems s d) = 0 then \<exists>g. H \<union> handed s (dom B) = {g} else H = {} \<and> dom B = {}) \<and>
     (\<forall>b \<in> dom B. \<exists>i. B b = Some (\<lambda>s'. lift0 (krelease (ProcLock (fst b))
        (upd_mycpu (hart s') (cpu_intena_update (\<lambda>_. i)) s')))))"

declare split_paired_All [simp del] split_paired_Ex [simp del]

lemma binvD:
  assumes "binv d (s, H, B)"
  shows "bs_threads (bsems s d) j = Some b \<Longrightarrow> j = slot_of b"
    and "bs_threads (bsems s d) j = Some b \<Longrightarrow> b \<in> dom B"
    and "bs_threads (bsems s d) j = Some b \<Longrightarrow> t_state (thr s b) = T_SLEEPING"
    and "b \<in> dom B \<Longrightarrow> fst b < NPROC" and "b \<in> dom B \<Longrightarrow> snd b < NTHREAD"
    and "b \<in> dom B \<Longrightarrow> t_state (thr s b) = T_RUNNABLE \<or>
        t_state (thr s b) = T_SLEEPING \<and> bs_threads (bsems s d) (slot_of b) = Some b"
    and "H \<inter> dom B = {}"
    and "bs_free (bsems s d) = 0 \<Longrightarrow> \<exists>g. H \<union> handed s (dom B) = {g}"
    and "bs_free (bsems s d) \<noteq> 0 \<Longrightarrow> H = {} \<and> dom B = {}"
    and "b \<in> dom B \<Longrightarrow> \<exists>i. B b = Some (\<lambda>s'. lift0 (krelease (ProcLock (fst b))
        (upd_mycpu (hart s') (cpu_intena_update (\<lambda>_. i)) s')))"
  using assms by (auto simp del: split_paired_All)

lemma binvI:
  assumes "\<And>j b. bs_threads (bsems s d) j = Some b \<Longrightarrow> j = slot_of b \<and> b \<in> dom B \<and> t_state (thr s b) = T_SLEEPING"
    and "\<And>b. b \<in> dom B \<Longrightarrow> fst b < NPROC \<and> snd b < NTHREAD \<and> (t_state (thr s b) = T_RUNNABLE \<or>
        t_state (thr s b) = T_SLEEPING \<and> bs_threads (bsems s d) (slot_of b) = Some b)"
    and "H \<inter> dom B = {}"
    and "if bs_free (bsems s d) = 0 then \<exists>g. H \<union> handed s (dom B) = {g} else H = {} \<and> dom B = {}"
    and "\<And>b. b \<in> dom B \<Longrightarrow> \<exists>i. B b = Some (\<lambda>s'. lift0 (krelease (ProcLock (fst b))
        (upd_mycpu (hart s') (cpu_intena_update (\<lambda>_. i)) s')))"
  shows "binv d (s, H, B)"
  unfolding binv.simps using assms by blast

declare binv.simps [simp del]

lemma slot_of_inj: "snd b < NTHREAD \<Longrightarrow> snd c < NTHREAD \<Longrightarrow> slot_of b = slot_of c \<longleftrightarrow> b = c"
  by (cases b; cases c) (simp add: slot_of_def, presburger)

lemma slot_of_less: "fst b < NPROC \<Longrightarrow> snd b < NTHREAD \<Longrightarrow> slot_of b < NPROC * NTHREAD"
  by (simp add: slot_of_def)

lemma mcall_OkD: "mcall f s = Ok s' \<Longrightarrow> \<exists>m. s' = s\<lparr>mach := m\<rparr>"
  by (auto simp: mcall_def kbind_eq_Ok)

lemma binv_down_takes:
  assumes i: "binv d (s, H, B)" and r: "ready d p t s" and "bsem_down (of_nat d) s = Done () s'"
  shows "binv d (s', insert (p, t) H, B)"
proof -
  have f: "bs_free (bsems s d) \<noteq> 0" using assms(3) bsem_down_blocks [OF r] by auto
  then have s': "s' = ktouch (upd_bsem d (bs_free_update (\<lambda>_. 0)) s)"
    using assms(3) bsem_down_free [OF r] by simp
  have e: "H = {}" "dom B = {}" using binvD(9) [OF i f] by simp_all
  show ?thesis
    by (rule binvI) (use binvD(1,2,3) [OF i] e in \<open>auto simp: s' handed_def\<close>)
qed

lemma binv_down_waits:
  assumes i: "binv d (s, H, B)" and r: "ready d p t s" and b: "(p, t) \<notin> H" "B (p, t) = None"
    and "bsem_down (of_nat d) s = Swtch s' k"
  shows "binv d (s', H, B((p, t) \<mapsto> k))"
proof -
  have f: "bs_free (bsems s d) = 0" using assms(5) bsem_down_free [OF r] by auto
  have s': "s' = waits_for d p t s"
    and k: "k = (\<lambda>s'. lift0 (krelease (ProcLock p) (upd_mycpu (hart s')
       (cpu_intena_update (\<lambda>_. cpu_intena (mycpu (waits_for d p t s)))) s')))"
    using trans [OF assms(5) [symmetric] bsem_down_blocks [OF r f]] by simp_all
  have pt: "p < NPROC" "t < NTHREAD" using r by (simp_all add: ready_def)
  have th: "thr s' c = (if c = (p, t) then (thr s c)\<lparr>t_state := T_SLEEPING\<rparr> else thr s c)" for c
    by (simp add: s' waits_for_def)
  have bs: "bsems s' d = (bsems s d)\<lparr>bs_threads := (bs_threads (bsems s d))(slot_of (p, t) := Some (p, t))\<rparr>"
    by (simp add: s' waits_for_def slot_of_def)
  have h: "handed s' (dom (B((p, t) \<mapsto> k))) = handed s (dom B)"
    using b by (auto simp: handed_def th)
  have no: "slot_of c \<noteq> slot_of (p, t)" "c \<noteq> (p, t)" if "c \<in> dom B" for c
    using that b pt slot_of_inj [of c "(p, t)"] binvD(5) [OF i that] by auto
  show ?thesis
  proof (rule binvI)
    fix j c assume "bs_threads (bsems s' d) j = Some c"
    then show "j = slot_of c \<and> c \<in> dom (B((p, t) \<mapsto> k)) \<and> t_state (thr s' c) = T_SLEEPING"
      using binvD(1,2,3) [OF i, of j c] by (auto simp: bs th split: if_splits)
  next
    fix c assume "c \<in> dom (B((p, t) \<mapsto> k))"
    then consider "c = (p, t)" | "c \<in> dom B" by auto
    then show "fst c < NPROC \<and> snd c < NTHREAD \<and> (t_state (thr s' c) = T_RUNNABLE \<or>
        t_state (thr s' c) = T_SLEEPING \<and> bs_threads (bsems s' d) (slot_of c) = Some c)"
      using pt no [of c] binvD(4,5,6) [OF i, of c] by cases (simp_all add: bs th)
  next
    show "H \<inter> dom (B((p, t) \<mapsto> k)) = {}" using binvD(7) [OF i] b by auto
    show "if bs_free (bsems s' d) = 0 then \<exists>g. H \<union> handed s' (dom (B((p, t) \<mapsto> k))) = {g}
       else H = {} \<and> dom (B((p, t) \<mapsto> k)) = {}"
      using binvD(8) [OF i f] f by (simp add: h bs del: dom_fun_upd)
    fix c assume "c \<in> dom (B((p, t) \<mapsto> k))"
    then show "\<exists>i. (B((p, t) \<mapsto> k)) c = Some (\<lambda>s'. lift0 (krelease (ProcLock (fst c))
        (upd_mycpu (hart s') (cpu_intena_update (\<lambda>_. i)) s')))"
      using binvD(10) [OF i, of c] k by auto
  qed
qed

lemma binv_down_returns:
  assumes i: "binv d (s, H, B)" and b: "B (p, t) = Some k" "t_state (thr s (p, t)) = T_RUNNABLE"
    and di: "dispatched p t s s1" and k: "k s1 = Done () s'"
  shows "binv d (s', insert (p, t) H, B((p, t) := None))"
proof -
  obtain i' where "k s1 = lift0 (krelease (ProcLock p) (upd_mycpu (hart s1) (cpu_intena_update (\<lambda>_. i')) s1))"
    using binvD(10) [OF i, of "(p, t)"] b(1) by auto
  then have "krelease (ProcLock p) (upd_mycpu (hart s1) (cpu_intena_update (\<lambda>_. i')) s1) = Ok s'"
    using k by (metis lift0_Ok_iff)
  then obtain m where s': "s' = (upd_mycpu (hart s1) (cpu_intena_update (\<lambda>_. i')) s1)\<lparr>mach := m\<rparr>"
    using mcall_OkD by blast
  have th: "thr s' c = (if c = (p, t) then (thr s c)\<lparr>t_state := T_RUNNING\<rparr> else thr s c)" for c
    using di by (auto simp: s' dispatched_def upd_mycpu_def)
  have bs: "bsems s' d = bsems s d" using di by (auto simp: s' dispatched_def upd_mycpu_def)
  have h: "handed s (dom B) = insert (p, t) (handed s' (dom (B((p, t) := None))))"
    using b by (auto simp: handed_def th)
  have f: "bs_free (bsems s d) = 0" using binvD(9) [OF i] b(1) by blast
  have g: "insert (p, t) H \<union> handed s' (dom (B((p, t) := None))) = {(p, t)}"
    using binvD(8) [OF i f] h by auto
  have sl: "bs_threads (bsems s d) j \<noteq> Some (p, t)" for j using binvD(3) [OF i, of j "(p, t)"] b(2) by auto
  show ?thesis
  proof (rule binvI)
    fix j c assume "bs_threads (bsems s' d) j = Some c"
    then show "j = slot_of c \<and> c \<in> dom (B((p, t) := None)) \<and> t_state (thr s' c) = T_SLEEPING"
      using binvD(1,2,3) [OF i, of j c] sl [of j] by (auto simp: bs th)
  next
    fix c assume "c \<in> dom (B((p, t) := None))"
    then show "fst c < NPROC \<and> snd c < NTHREAD \<and> (t_state (thr s' c) = T_RUNNABLE \<or>
        t_state (thr s' c) = T_SLEEPING \<and> bs_threads (bsems s' d) (slot_of c) = Some c)"
      and "\<exists>i. (B((p, t) := None)) c = Some (\<lambda>s'. lift0 (krelease (ProcLock (fst c))
        (upd_mycpu (hart s') (cpu_intena_update (\<lambda>_. i)) s')))"
      using binvD(4,5,6,10) [OF i, of c] by (auto simp: bs th)
  qed (use g f binvD(7) [OF i] in \<open>auto simp: bs\<close>)
qed

lemma find_waiter:
  assumes i: "binv d (s, H, B)"
    and "find (\<lambda>j. bs_threads (bsems s d) j \<noteq> None) [0..<NPROC * NTHREAD] = None"
  shows "bs_threads (bsems s d) j = None"
proof (rule ccontr)
  assume "bs_threads (bsems s d) j \<noteq> None"
  then obtain c where c: "bs_threads (bsems s d) j = Some c" by auto
  then have "j = slot_of c" "c \<in> dom B" using binvD(1,2) [OF i] by blast+
  then have "j < NPROC * NTHREAD" using binvD(4,5) [OF i, of c] slot_of_less [of c] by simp
  then show False using assms(2) c by (auto simp: find_upt_None_iff)
qed

lemma binv_up_hands:
  assumes i: "binv d (s, H, B)" and H: "H = {(p, t)}" "handed s (dom B) = {}" and f: "bs_free (bsems s d) = 0"
    and c: "bs_threads (bsems s d) j = Some c"
    and th: "\<And>b. thr s' b = (if b = c then (thr s c)\<lparr>t_state := T_RUNNABLE\<rparr> else thr s b)"
    and bs: "bsems s' d = (bsems s d)\<lparr>bs_threads := (bs_threads (bsems s d))(j := None)\<rparr>"
  shows "binv d (s', H - {(p, t)}, B)"
proof -
  have j: "j = slot_of c" "c \<in> dom B" using binvD(1,2) [OF i c] by simp_all
  have h: "handed s' (dom B) = {c}" using H(2) j(2) by (auto simp: handed_def th split: if_splits)
  have keep: "slot_of b \<noteq> j" if "b \<in> dom B" "b \<noteq> c" for b
    using that j slot_of_inj [of b c] binvD(5) [OF i] by simp
  show ?thesis
  proof (rule binvI)
    fix l b assume "bs_threads (bsems s' d) l = Some b"
    then have l: "bs_threads (bsems s d) l = Some b" "l \<noteq> j" by (simp_all add: bs split: if_splits)
    then have "b \<noteq> c" using binvD(1) [OF i l(1)] j(1) by auto
    then show "l = slot_of b \<and> b \<in> dom B \<and> t_state (thr s' b) = T_SLEEPING"
      using binvD(1,2,3) [OF i l(1)] by (simp add: th)
  next
    fix b assume b: "b \<in> dom B"
    then show "fst b < NPROC \<and> snd b < NTHREAD \<and> (t_state (thr s' b) = T_RUNNABLE \<or>
        t_state (thr s' b) = T_SLEEPING \<and> bs_threads (bsems s' d) (slot_of b) = Some b)"
      using binvD(4,5,6) [OF i b] keep [OF b] by (simp add: th bs)
    show "\<exists>i. B b = Some (\<lambda>s'. lift0 (krelease (ProcLock (fst b))
        (upd_mycpu (hart s') (cpu_intena_update (\<lambda>_. i)) s')))"
      using binvD(10) [OF i b] .
  qed (use H h f in \<open>simp_all add: bs\<close>)
qed

lemma binv_up:
  assumes i: "binv d (s, H, B)" and r: "ready d p t s" and b: "(p, t) \<in> H"
    and up: "bsem_up (of_nat d) s = Ok s'"
  shows "binv d (s', H - {(p, t)}, B)"
proof -
  have f: "bs_free (bsems s d) = 0" using binvD(9) [OF i] b by auto
  then obtain g where "H \<union> handed s (dom B) = {g}" using binvD(8) [OF i f] by blast
  moreover from this have "g = (p, t)" using b by (metis UnI1 singletonD)
  ultimately have sub: "H \<union> handed s (dom B) = {(p, t)}" by simp
  then have g: "H = {(p, t)}" "handed s (dom B) \<subseteq> {(p, t)}" using b by (metis Un_upper1 Un_upper2
      insertE singletonD subset_singletonD empty_iff)+
  then have none: "handed s (dom B) = {}" using binvD(7) [OF i] by (auto simp: handed_def)
  show ?thesis
  proof (cases "find (\<lambda>j. bs_threads (bsems s d) j \<noteq> None) [0..<NPROC * NTHREAD]")
    case None
    then have s': "s' = ktouch (upd_bsem d (bs_free_update (\<lambda>_. 1)) s)"
      using bsem_up_frees [OF r] up by simp
    have no: "bs_threads (bsems s d) j = None" for j by (rule find_waiter [OF i None])
    have "b \<notin> dom B" for b using binvD(6) [OF i, of b] no none by (auto simp: handed_def)
    then have "dom B = {}" by blast
    then show ?thesis by (intro binvI) (use g no in \<open>simp_all add: s'\<close>)
  next
    case (Some j)
    then obtain c where c: "bs_threads (bsems s d) j = Some c" by (auto simp: find_upt_Some_iff)
    then have s': "s' = ktouch (upd_bsem d (\<lambda>x. x\<lparr>bs_threads := (bs_threads x)(j := None)\<rparr>)
        (upd_thr c (t_state_update (\<lambda>_. T_RUNNABLE)) s))"
      using bsem_up_hands [OF r Some] up by simp
    show ?thesis by (rule binv_up_hands [OF i g(1) none f c]) (simp_all add: s')
  qed
qed

lemma bsys_binv: "bsys d c c' \<Longrightarrow> binv d c \<Longrightarrow> binv d c'"
proof (induction rule: bsys.induct)
  case (other s' s B H)
  have st: "t_state (thr s' b) = t_state (thr s b)" if "b \<in> dom B" for b using other(2) that by blast
  then have h: "handed s' (dom B) = handed s (dom B)" by (simp add: handed_def cong: conj_cong)
  show ?case
  proof (rule binvI)
    fix j b assume "bs_threads (bsems s' d) j = Some b"
    then show "j = slot_of b \<and> b \<in> dom B \<and> t_state (thr s' b) = T_SLEEPING"
      using binvD(1,2,3) [OF other(3), of j b] st [of b] other(1) by simp
  next
    fix b assume b: "b \<in> dom B"
    show "fst b < NPROC \<and> snd b < NTHREAD \<and> (t_state (thr s' b) = T_RUNNABLE \<or>
        t_state (thr s' b) = T_SLEEPING \<and> bs_threads (bsems s' d) (slot_of b) = Some b)"
      using binvD(4,5,6) [OF other(3) b] st [OF b] other(1) by simp
    show "\<exists>i. B b = Some (\<lambda>s'. lift0 (krelease (ProcLock (fst b))
        (upd_mycpu (hart s') (cpu_intena_update (\<lambda>_. i)) s')))"
      using binvD(10) [OF other(3) b] .
  qed (use binvD(7,8,9) [OF other(3)] other(1) h in auto)
qed (blast intro: binv_down_takes binv_down_waits binv_down_returns binv_up)+

section \<open>Properties\<close>

text \<open>
  C11. Mutual exclusion of the binary semaphores.  From any state in which the semaphore is free
  and nobody uses it, over every interleaving of downs and ups of any number of threads with any
  other kernel activity that leaves the semaphore and the state of blocked threads alone: at most one
  thread is between its down and its up; while a thread is blocked, the semaphore is taken and some
  thread has it or has been handed it and is runnable, so no waiter is forgotten.
\<close>

theorem bsem_mutual_exclusion:
  assumes "(bsys d)\<^sup>*\<^sup>* (s0, {}, Map.empty) (s, H, B)" and "bs_free (bsems s0 d) \<noteq> 0"
    and "\<forall>j. bs_threads (bsems s0 d) j = None"
  shows "(\<forall>x \<in> H. \<forall>y \<in> H. x = y) \<and>
    (B \<noteq> Map.empty \<longrightarrow> bs_free (bsems s d) = 0 \<and>
       (H \<noteq> {} \<or> (\<exists>b \<in> dom B. t_state (thr s b) = T_RUNNABLE)))"
proof -
  have "binv d (s0, {}, Map.empty)" by (rule binvI) (use assms(2,3) in auto)
  with assms(1) have i: "binv d (s, H, B)" by (induction rule: rtranclp_induct) (blast intro: bsys_binv)+
  show ?thesis
  proof (cases "bs_free (bsems s d) = 0")
    case True
    obtain g where g: "H \<union> handed s (dom B) = {g}" using binvD(8) [OF i True] by blast
    then have "H \<subseteq> {g}" by blast
    moreover have "H \<noteq> {} \<or> (\<exists>b \<in> dom B. t_state (thr s b) = T_RUNNABLE)"
      using g unfolding handed_def by blast
    ultimately show ?thesis using True by blast
  next
    case False
    then show ?thesis using binvD(9) [OF i] by auto
  qed
qed

text \<open>Two threads of one process: the first takes the semaphore, the second blocks.\<close>

theorem bsem_mutual_exclusion_witness:
  "\<exists>s0 s B. (bsys 0)\<^sup>*\<^sup>* (s0, {}, Map.empty) (s, {(0, 0)}, B) \<and> B (0, 1) \<noteq> None \<and> bs_free (bsems s 0) = 0"
proof -
  let ?s0 = "upd_bsem 0 (\<lambda>b. b\<lparr>bs_free := 1\<rparr>) (one_thread idle_machine)"
  let ?s1 = "ktouch (upd_bsem 0 (bs_free_update (\<lambda>_. 0)) ?s0)"
  let ?s2 = "upd_mycpu 0 (\<lambda>c. c\<lparr>cpu_thread := Some (0, 1)\<rparr>) ?s1"
  have r0: "ready 0 0 0 ?s0" and r2: "ready 0 0 1 ?s2"
    by (simp_all add: ready_def runs_def one_thread_def boot_kst_def idle_machine_def upd_mycpu_def
        upd_cpu_def mycpu_def cpuid_def lock_free_def cpu_ok_def touch_def)
  have "bsys 0 (?s0, {}, Map.empty) (?s1, {(0, 0)}, Map.empty)"
    using bsys.down_takes [OF r0, of "{}" Map.empty ?s1] bsem_down_free [OF r0] by simp
  moreover have "bsys 0 (?s1, {(0, 0)}, Map.empty) (?s2, {(0, 0)}, Map.empty)"
    by (rule bsys.other) (simp_all add: upd_mycpu_def)
  moreover obtain s k where "bsem_down (of_nat 0) ?s2 = Swtch s k"
    using bsem_down_blocks [OF r2] by (simp add: upd_mycpu_def)
  then have "bsys 0 (?s2, {(0, 0)}, Map.empty) (s, {(0, 0)}, [(0, 1) \<mapsto> k])"
    using bsys.down_waits [OF r2] by simp
  ultimately have run: "(bsys 0)\<^sup>*\<^sup>* (?s0, {}, Map.empty) (s, {(0, 0)}, [(0, 1) \<mapsto> k])"
    by (meson converse_rtranclp_into_rtranclp rtranclp.rtrancl_refl)
  show ?thesis
    using bsem_mutual_exclusion [OF run] run
    by (intro exI conjI) (auto simp: one_thread_def boot_kst_def upd_mycpu_def)
qed

end
