(* ===== verification/Syscall.thy ===== *)
theory Syscall
  imports Lifecycle Signals Bsem
begin

text \<open>
  System calls: fetching arguments (kernel/syscall.c), the calls of kernel/sysproc.c and
  kernel/sysfile.c, and the dispatch table.  The arguments are in the trapframe of the calling thread,
  the value returned goes into its a0.
\<close>

unbundle bit_operations_syntax

section \<open>Arguments\<close>

definition fetchaddr :: "u64 \<Rightarrow> kst \<Rightarrow> ((i32 \<times> u64) \<times> kst) res" where
  "fetchaddr addr s =
    kbind (myproc s) (\<lambda>(p, s). deref p (\<lambda>p.
    let sz = p_sz (procs s p)
    in if addr \<ge> sz \<or> addr + 8 > sz then Ok ((- 1, 0), s)
       else kbind (copyin (hart s) (p_pagetable (procs s p)) addr 8 (mach s)) (\<lambda>(r, bs).
         if r \<noteq> 0 then Ok ((- 1, 0), s) else Ok ((0, le_word bs), s))))"

text \<open>The string without its terminator, or None for an error.\<close>

definition fetchstr :: "u64 \<Rightarrow> nat \<Rightarrow> kst \<Rightarrow> (u8 list option \<times> kst) res" where
  "fetchstr addr mx s =
    kbind (myproc s) (\<lambda>(p, s). deref p (\<lambda>p.
    kbind (copyinstr (hart s) (p_pagetable (procs s p)) addr mx (mach s)) (\<lambda>(r, bs).
    Ok (if sint r < 0 then None else Some (takeWhile (\<lambda>c. c \<noteq> 0) bs), s))))"

definition argraw :: "nat \<Rightarrow> kst \<Rightarrow> (u64 \<times> kst) res" where
  "argraw n s =
    kbind (mythread s) (\<lambda>(t, s).
    if n \<le> 5 then deref t (\<lambda>t. Ok (tf_get s t (TF_a0 + 8 * of_nat n), s)) else Panic ''argraw'')"

definition argint :: "nat \<Rightarrow> kst \<Rightarrow> (i32 \<times> kst) res" where
  "argint n s = kbind (argraw n s) (\<lambda>(x, s). Ok (ucast x, s))"

definition argaddr :: "nat \<Rightarrow> kst \<Rightarrow> (u64 \<times> kst) res" where
  "argaddr n s = argraw n s"

abbreviation MAXPATH :: nat where "MAXPATH \<equiv> 128"

definition argstr :: "nat \<Rightarrow> nat \<Rightarrow> kst \<Rightarrow> (u8 list option \<times> kst) res" where
  "argstr n mx s = kbind (argaddr n s) (\<lambda>(addr, s). fetchstr addr mx s)"

text \<open>The value -1 of a call that returns uint64.\<close>

abbreviation ERR :: u64 where "ERR \<equiv> - 1"

section \<open>Processes (kernel/sysproc.c)\<close>

definition sys_bsem_alloc :: "kst \<Rightarrow> (kst, u64) run" where
  "sys_bsem_alloc s = rbind (lift (bsem_alloc s)) (\<lambda>r. Done (scast r))"

definition sys_bsem_free :: "kst \<Rightarrow> (kst, u64) run" where
  "sys_bsem_free s = rbind (lift (argint 0 s)) (\<lambda>d s. rbind (lift0 (bsem_free d s)) (\<lambda>_. Done 0))"

definition sys_bsem_down :: "kst \<Rightarrow> (kst, u64) run" where
  "sys_bsem_down s = rbind (lift (argint 0 s)) (\<lambda>d s. rbind (bsem_down d s) (\<lambda>_. Done 0))"

definition sys_bsem_up :: "kst \<Rightarrow> (kst, u64) run" where
  "sys_bsem_up s = rbind (lift (argint 0 s)) (\<lambda>d s. rbind (lift0 (bsem_up d s)) (\<lambda>_. Done 0))"

definition sys_kthread_create :: "kst \<Rightarrow> (kst, u64) run" where
  "sys_kthread_create s =
    rbind (lift (argaddr 0 s)) (\<lambda>start_func s.
    rbind (lift (argaddr 1 s)) (\<lambda>stack s.
    rbind (lift (kthread_create start_func stack s)) (\<lambda>r. Done (scast r))))"

definition sys_kthread_id :: "kst \<Rightarrow> (kst, u64) run" where
  "sys_kthread_id s = rbind (lift (kthread_id s)) (\<lambda>r. Done (scast r))"

definition sys_kthread_exit :: "kst \<Rightarrow> (kst, u64) run" where
  "sys_kthread_exit s = rbind (lift (argint 0 s)) (\<lambda>status s. rbind (kthread_exit status s) (\<lambda>_. Done 0))"

definition sys_kthread_join :: "kst \<Rightarrow> (kst, u64) run" where
  "sys_kthread_join s =
    rbind (lift (argint 0 s)) (\<lambda>thread_id s.
    rbind (lift (argaddr 1 s)) (\<lambda>status s.
    rbind (kthread_join thread_id status s) (\<lambda>r. Done (scast r))))"

definition sys_sigprocmask :: "kst \<Rightarrow> (kst, u64) run" where
  "sys_sigprocmask s = rbind (lift (argint 0 s)) (\<lambda>m s. rbind (lift (sigprocmask m s)) (\<lambda>r. Done (ucast r)))"

definition sys_sigaction :: "kst \<Rightarrow> (kst, u64) run" where
  "sys_sigaction s =
    rbind (lift (argint 0 s)) (\<lambda>signum s.
    rbind (lift (argaddr 1 s)) (\<lambda>act s.
    rbind (lift (argaddr 2 s)) (\<lambda>oldact s.
    rbind (lift (sigaction (take 16 (stack_junk s)) signum act oldact s)) (\<lambda>r. Done (scast r)))))"

definition sys_sigret :: "kst \<Rightarrow> (kst, u64) run" where
  "sys_sigret s = rbind (lift0 (sigret s)) (\<lambda>_. Done 0)"

definition sys_exit :: "kst \<Rightarrow> (kst, u64) run" where
  "sys_exit s = rbind (lift (argint 0 s)) (\<lambda>n s. rbind (kexit n s) (\<lambda>_. Done 0))"

definition sys_getpid :: "kst \<Rightarrow> (kst, u64) run" where
  "sys_getpid s = rbind (lift (myproc s)) (\<lambda>p s. rderef p (\<lambda>p. Done (scast (p_pid (procs s p))) s))"

definition sys_fork :: "kst \<Rightarrow> (kst, u64) run" where
  "sys_fork s = rbind (lift (fork s)) (\<lambda>r. Done (scast r))"

definition sys_wait :: "kst \<Rightarrow> (kst, u64) run" where
  "sys_wait s = rbind (lift (argaddr 0 s)) (\<lambda>p s. rbind (wait p s) (\<lambda>r. Done (scast r)))"

definition sys_sbrk :: "kst \<Rightarrow> (kst, u64) run" where
  "sys_sbrk s =
    rbind (lift (argint 0 s)) (\<lambda>n s.
    rbind (lift (myproc s)) (\<lambda>p s. rderef p (\<lambda>p.
    let addr = (ucast (p_sz (procs s p)) :: i32)
    in rbind (lift (growproc n s)) (\<lambda>r. Done (if sint r < 0 then ERR else scast addr)))))"

text \<open>The loop of \<open>sys_sleep\<close> compares unsigned; the result is whether the time has passed.\<close>

definition sleep_iter :: "u32 \<Rightarrow> i32 \<Rightarrow> kst \<Rightarrow> (kst, bool option) run" where
  "sleep_iter ticks0 n s =
    (if ticks s - ticks0 < n then
       rbind (lift (myproc s)) (\<lambda>p s. rderef p (\<lambda>p.
       if p_killed (procs s p) \<noteq> 0 then rbind (lift0 (krelease TicksLock s)) (\<lambda>_. Done (Some False))
       else rbind (sleep ChTicks TicksLock s) (\<lambda>_. Done None)))
     else rbind (lift0 (krelease TicksLock s)) (\<lambda>_. Done (Some True)))"

definition sys_sleep :: "kst \<Rightarrow> (kst, u64) run" where
  "sys_sleep s =
    rbind (lift (argint 0 s)) (\<lambda>n s.
    rbind (lift0 (kacquire TicksLock s)) (\<lambda>_ s.
    let ticks0 = ticks s
    in rbind (rloop (sleep_iter ticks0 n) s) (\<lambda>ok. Done (if ok then 0 else ERR))))"

definition sys_kill :: "kst \<Rightarrow> (kst, u64) run" where
  "sys_kill s =
    rbind (lift (argint 0 s)) (\<lambda>pid s.
    rbind (lift (argint 1 s)) (\<lambda>signum s.
    rbind (lift (kill pid signum s)) (\<lambda>r. Done (scast r))))"

definition sys_uptime :: "kst \<Rightarrow> (kst, u64) run" where
  "sys_uptime s =
    rbind (lift0 (kacquire TicksLock s)) (\<lambda>_ s.
    let xticks = ticks s in rbind (lift0 (krelease TicksLock s)) (\<lambda>_. Done (ucast xticks)))"

section \<open>Files (kernel/sysfile.c)\<close>

definition argfd :: "nat \<Rightarrow> kst \<Rightarrow> ((nat \<times> nat) option \<times> kst) res" where
  "argfd n s =
    kbind (argint n s) (\<lambda>(fd, s).
    if sint fd < 0 \<or> sint fd \<ge> int NOFILE then Ok (None, s)
    else kbind (myproc s) (\<lambda>(p, s). deref p (\<lambda>p.
      case p_ofile (procs s p) (unat fd) of None \<Rightarrow> Ok (None, s) | Some f \<Rightarrow> Ok (Some (unat fd, f), s))))"

definition set_ofile :: "nat \<Rightarrow> nat \<Rightarrow> nat option \<Rightarrow> kst \<Rightarrow> kst" where
  "set_ofile p fd f s = upd_proc p (\<lambda>q. q\<lparr>p_ofile := (p_ofile q)(fd := f)\<rparr>) s"

definition fdalloc :: "nat \<Rightarrow> kst \<Rightarrow> (nat option \<times> kst) res" where
  "fdalloc f s =
    kbind (myproc s) (\<lambda>(p, s). deref p (\<lambda>p.
    case find (\<lambda>fd. p_ofile (procs s p) fd = None) [0..<NOFILE] of
      Some fd \<Rightarrow> Ok (Some fd, set_ofile p fd (Some f) s)
    | None \<Rightarrow> Ok (None, s)))"

definition sys_dup :: "kst \<Rightarrow> (kst, u64) run" where
  "sys_dup s =
    rbind (lift (argfd 0 s)) (\<lambda>r s. case r of None \<Rightarrow> Done ERR s
    | Some (_, f) \<Rightarrow> rbind (lift (fdalloc f s)) (\<lambda>fd s. case fd of None \<Rightarrow> Done ERR s
    | Some fd \<Rightarrow> rbind (lift (filedup f s)) (\<lambda>_. Done (of_nat fd))))"

definition sys_read :: "kst \<Rightarrow> (kst, u64) run" where
  "sys_read s =
    rbind (lift (argfd 0 s)) (\<lambda>r s. case r of None \<Rightarrow> Done ERR s
    | Some (_, f) \<Rightarrow> rbind (lift (argint 2 s)) (\<lambda>n s. rbind (lift (argaddr 1 s)) (\<lambda>p s.
      rbind (fileread f p n s) (\<lambda>r. Done (scast r)))))"

definition sys_write :: "kst \<Rightarrow> (kst, u64) run" where
  "sys_write s =
    rbind (lift (argfd 0 s)) (\<lambda>r s. case r of None \<Rightarrow> Done ERR s
    | Some (_, f) \<Rightarrow> rbind (lift (argint 2 s)) (\<lambda>n s. rbind (lift (argaddr 1 s)) (\<lambda>p s.
      rbind (filewrite f p n s) (\<lambda>r. Done (scast r)))))"

definition sys_close :: "kst \<Rightarrow> (kst, u64) run" where
  "sys_close s =
    rbind (lift (argfd 0 s)) (\<lambda>r s. case r of None \<Rightarrow> Done ERR s
    | Some (fd, f) \<Rightarrow> rbind (lift (myproc s)) (\<lambda>p s. rderef p (\<lambda>p.
      rbind (fileclose f (set_ofile p fd None s)) (\<lambda>_. Done 0))))"

definition sys_fstat :: "kst \<Rightarrow> (kst, u64) run" where
  "sys_fstat s =
    rbind (lift (argfd 0 s)) (\<lambda>r s. case r of None \<Rightarrow> Done ERR s
    | Some (_, f) \<Rightarrow> rbind (lift (argaddr 1 s)) (\<lambda>a s.
      rbind (filestat (stack_junk s) f a s) (\<lambda>r. Done (scast r))))"

definition fs_err :: "kst \<Rightarrow> (kst, u64) run" where
  "fs_err s = rbind (end_op s) (\<lambda>_. Done ERR)"

definition add_nlink :: "u16 \<Rightarrow> nat \<Rightarrow> kst \<Rightarrow> kst" where
  "add_nlink d ip s = upd_inode ip (\<lambda>x. x\<lparr>i_nlink := i_nlink x + d\<rparr>) s"

definition link_bad :: "nat \<Rightarrow> kst \<Rightarrow> (kst, u64) run" where
  "link_bad ip s =
    rbind (ilock (Some ip) s) (\<lambda>_ s.
    rbind (iupdate ip (add_nlink (- 1) ip s)) (\<lambda>_ s.
    rbind (iunlockput ip s) (\<lambda>_ s. fs_err s)))"

definition sys_link :: "kst \<Rightarrow> (kst, u64) run" where
  "sys_link s =
    rbind (lift (argstr 0 MAXPATH s)) (\<lambda>old s. case old of None \<Rightarrow> Done ERR s | Some old \<Rightarrow>
    rbind (lift (argstr 1 MAXPATH s)) (\<lambda>new s. case new of None \<Rightarrow> Done ERR s | Some new \<Rightarrow>
    rbind (begin_op s) (\<lambda>_ s.
    rbind (namei old s) (\<lambda>r s. case r of None \<Rightarrow> fs_err s
    | Some ip \<Rightarrow>
      rbind (ilock (Some ip) s) (\<lambda>_ s.
      if i_type (nd s ip) = T_DIR then rbind (iunlockput ip s) (\<lambda>_ s. fs_err s)
      else
        rbind (iupdate ip (add_nlink 1 ip s)) (\<lambda>_ s.
        rbind (lift0 (iunlock (Some ip) s)) (\<lambda>_ s.
        rbind (nameiparent new s) (\<lambda>r s. case r of None \<Rightarrow> link_bad ip s
        | Some (dp, name) \<Rightarrow>
          rbind (ilock (Some dp) s) (\<lambda>_ s.
          rbind (if i_dev (nd s dp) \<noteq> i_dev (nd s ip) then Done (- 1) s
                 else dirlink dp name (i_inum (nd s ip)) s) (\<lambda>r s.
          if sint r < 0 then rbind (iunlockput dp s) (\<lambda>_ s. link_bad ip s)
          else
            rbind (iunlockput dp s) (\<lambda>_ s.
            rbind (iput ip s) (\<lambda>_ s.
            rbind (end_op s) (\<lambda>_. Done 0)))))))))))))"

primrec isdirempty_scan :: "nat \<Rightarrow> nat list \<Rightarrow> kst \<Rightarrow> (kst, bool) run" where
  "isdirempty_scan dp [] s = Done True s"
| "isdirempty_scan dp (off # offs) s =
    rbind (readi dp ToLocal (of_nat off) 16 s) (\<lambda>(r, de) s.
    if r \<noteq> 16 then Fail (FPanic ''isdirempty: readi'')
    else if get_u16 0 de \<noteq> 0 then Done False s
    else isdirempty_scan dp offs s)"

definition isdirempty :: "nat \<Rightarrow> kst \<Rightarrow> (kst, bool) run" where
  "isdirempty dp s = isdirempty_scan dp (drop 2 (dirent_offs (unat (i_size (nd s dp))))) s"

definition unlink_bad :: "nat \<Rightarrow> kst \<Rightarrow> (kst, u64) run" where
  "unlink_bad dp s = rbind (iunlockput dp s) (\<lambda>_ s. fs_err s)"

definition sys_unlink :: "kst \<Rightarrow> (kst, u64) run" where
  "sys_unlink s =
    rbind (lift (argstr 0 MAXPATH s)) (\<lambda>path s. case path of None \<Rightarrow> Done ERR s | Some path \<Rightarrow>
    rbind (begin_op s) (\<lambda>_ s.
    rbind (nameiparent path s) (\<lambda>r s. case r of None \<Rightarrow> fs_err s
    | Some (dp, name) \<Rightarrow>
      rbind (ilock (Some dp) s) (\<lambda>_ s.
      if namecmp name (ascii ''.'') = 0 \<or> namecmp name (ascii ''..'') = 0 then unlink_bad dp s
      else rbind (dirlookup dp name s) (\<lambda>r s. case r of None \<Rightarrow> unlink_bad dp s
      | Some (ip, off) \<Rightarrow>
        rbind (ilock (Some ip) s) (\<lambda>_ s.
        if sint (i_nlink (nd s ip)) < 1 then Fail (FPanic ''unlink: nlink < 1'')
        else
          rbind (if i_type (nd s ip) = T_DIR then isdirempty ip s else Done True s) (\<lambda>e s.
          if \<not> e then rbind (iunlockput ip s) (\<lambda>_ s. unlink_bad dp s)
          else
            rbind (writei dp (FromLocal (replicate 16 0)) (of_nat off) 16 s) (\<lambda>r s.
            if r \<noteq> 16 then Fail (FPanic ''unlink: writei'')
            else
              rbind (if i_type (nd s ip) = T_DIR then iupdate dp (add_nlink (- 1) dp s) else Done () s) (\<lambda>_ s.
              rbind (iunlockput dp s) (\<lambda>_ s.
              rbind (iupdate ip (add_nlink (- 1) ip s)) (\<lambda>_ s.
              rbind (iunlockput ip s) (\<lambda>_ s.
              rbind (end_op s) (\<lambda>_. Done 0)))))))))))))"

text \<open>The inode that \<open>create\<close> returns is locked.\<close>

definition create :: "u8 list \<Rightarrow> u16 \<Rightarrow> u16 \<Rightarrow> u16 \<Rightarrow> kst \<Rightarrow> (kst, nat option) run" where
  "create path type major minor s =
    rbind (nameiparent path s) (\<lambda>r s. case r of None \<Rightarrow> Done None s
    | Some (dp, name) \<Rightarrow>
      rbind (ilock (Some dp) s) (\<lambda>_ s.
      rbind (dirlookup dp name s) (\<lambda>r s. case r of
        Some (ip, _) \<Rightarrow>
          rbind (iunlockput dp s) (\<lambda>_ s.
          rbind (ilock (Some ip) s) (\<lambda>_ s.
          if type = T_FILE \<and> (i_type (nd s ip) = T_FILE \<or> i_type (nd s ip) = T_DEVICE) then Done (Some ip) s
          else rbind (iunlockput ip s) (\<lambda>_. Done None)))
      | None \<Rightarrow>
          rbind (ialloc (i_dev (nd s dp)) type s) (\<lambda>ip s.
          rbind (ilock (Some ip) s) (\<lambda>_ s.
          rbind (iupdate ip (upd_inode ip (\<lambda>x. x\<lparr>i_major := major, i_minor := minor, i_nlink := 1\<rparr>) s)) (\<lambda>_ s.
          rbind (if type = T_DIR then
              rbind (iupdate dp (add_nlink 1 dp s)) (\<lambda>_ s.
              rbind (dirlink ip (ascii ''.'') (i_inum (nd s ip)) s) (\<lambda>r s.
              if sint r < 0 then Fail (FPanic ''create dots'')
              else rbind (dirlink ip (ascii ''..'') (i_inum (nd s dp)) s) (\<lambda>r s.
                if sint r < 0 then Fail (FPanic ''create dots'') else Done () s)))
            else Done () s) (\<lambda>_ s.
          rbind (dirlink dp name (i_inum (nd s ip)) s) (\<lambda>r s.
          if sint r < 0 then Fail (FPanic ''create: dirlink'')
          else rbind (iunlockput dp s) (\<lambda>_. Done (Some ip))))))))))"

abbreviation O_RDONLY :: i32 where "O_RDONLY \<equiv> 0"
abbreviation O_WRONLY :: i32 where "O_WRONLY \<equiv> 1"
abbreviation O_RDWR :: i32 where "O_RDWR \<equiv> 2"
abbreviation O_CREATE :: i32 where "O_CREATE \<equiv> 0x200"
abbreviation O_TRUNC :: i32 where "O_TRUNC \<equiv> 0x400"

definition put_err :: "nat \<Rightarrow> kst \<Rightarrow> (kst, u64) run" where
  "put_err ip s = rbind (iunlockput ip s) (\<lambda>_ s. fs_err s)"

text \<open>The inode to open, locked; None when the call has failed and ended its operation.\<close>

definition open_inode :: "u8 list \<Rightarrow> i32 \<Rightarrow> kst \<Rightarrow> (kst, nat option) run" where
  "open_inode path omode s =
    (if omode AND O_CREATE \<noteq> 0 then
       rbind (create path T_FILE 0 0 s) (\<lambda>r s. case r of
         None \<Rightarrow> rbind (end_op s) (\<lambda>_. Done None) | Some ip \<Rightarrow> Done (Some ip) s)
     else
       rbind (namei path s) (\<lambda>r s. case r of
         None \<Rightarrow> rbind (end_op s) (\<lambda>_. Done None)
       | Some ip \<Rightarrow> rbind (ilock (Some ip) s) (\<lambda>_ s.
           if i_type (nd s ip) = T_DIR \<and> omode \<noteq> O_RDONLY then
             rbind (iunlockput ip s) (\<lambda>_ s. rbind (end_op s) (\<lambda>_. Done None))
           else Done (Some ip) s)))"

definition open_file :: "nat \<Rightarrow> i32 \<Rightarrow> nat \<Rightarrow> kst \<Rightarrow> kst" where
  "open_file ip omode f s =
    upd_file f (\<lambda>x. x\<lparr>f_ip := Some ip, f_readable := (omode AND O_WRONLY = 0),
        f_writable := (omode AND O_WRONLY \<noteq> 0 \<or> omode AND O_RDWR \<noteq> 0)\<rparr>)
      (if i_type (nd s ip) = T_DEVICE
       then upd_file f (\<lambda>x. x\<lparr>f_type := FD_DEVICE, f_major := i_major (nd s ip)\<rparr>) s
       else upd_file f (\<lambda>x. x\<lparr>f_type := FD_INODE, f_off := 0\<rparr>) s)"

definition sys_open :: "kst \<Rightarrow> (kst, u64) run" where
  "sys_open s =
    rbind (lift (argstr 0 MAXPATH s)) (\<lambda>path s. case path of None \<Rightarrow> Done ERR s | Some path \<Rightarrow>
    rbind (lift (argint 1 s)) (\<lambda>omode s.
    rbind (begin_op s) (\<lambda>_ s.
    rbind (open_inode path omode s) (\<lambda>r s. case r of None \<Rightarrow> Done ERR s
    | Some ip \<Rightarrow>
      if i_type (nd s ip) = T_DEVICE \<and> (sint (i_major (nd s ip)) < 0 \<or> sint (i_major (nd s ip)) \<ge> int NDEV) then
        put_err ip s
      else rbind (lift (filealloc s)) (\<lambda>f s. case f of None \<Rightarrow> put_err ip s
      | Some f \<Rightarrow> rbind (lift (fdalloc f s)) (\<lambda>fd s. case fd of
          None \<Rightarrow> rbind (fileclose f s) (\<lambda>_ s. put_err ip s)
        | Some fd \<Rightarrow>
          let s = open_file ip omode f s
          in rbind (if omode AND O_TRUNC \<noteq> 0 \<and> i_type (nd s ip) = T_FILE then itrunc ip s else Done () s) (\<lambda>_ s.
             rbind (lift0 (iunlock (Some ip) s)) (\<lambda>_ s.
             rbind (end_op s) (\<lambda>_. Done (of_nat fd))))))))))"

definition sys_mkdir :: "kst \<Rightarrow> (kst, u64) run" where
  "sys_mkdir s =
    rbind (begin_op s) (\<lambda>_ s.
    rbind (lift (argstr 0 MAXPATH s)) (\<lambda>path s. case path of None \<Rightarrow> fs_err s | Some path \<Rightarrow>
    rbind (create path T_DIR 0 0 s) (\<lambda>r s. case r of None \<Rightarrow> fs_err s
    | Some ip \<Rightarrow> rbind (iunlockput ip s) (\<lambda>_ s. rbind (end_op s) (\<lambda>_. Done 0)))))"

definition sys_mknod :: "kst \<Rightarrow> (kst, u64) run" where
  "sys_mknod s =
    rbind (begin_op s) (\<lambda>_ s.
    rbind (lift (argstr 0 MAXPATH s)) (\<lambda>path s. case path of None \<Rightarrow> fs_err s | Some path \<Rightarrow>
    rbind (lift (argint 1 s)) (\<lambda>major s.
    rbind (lift (argint 2 s)) (\<lambda>minor s.
    rbind (create path T_DEVICE (ucast major) (ucast minor) s) (\<lambda>r s. case r of None \<Rightarrow> fs_err s
    | Some ip \<Rightarrow> rbind (iunlockput ip s) (\<lambda>_ s. rbind (end_op s) (\<lambda>_. Done 0)))))))"

definition sys_chdir :: "kst \<Rightarrow> (kst, u64) run" where
  "sys_chdir s =
    rbind (lift (myproc s)) (\<lambda>p s. rderef p (\<lambda>p.
    rbind (begin_op s) (\<lambda>_ s.
    rbind (lift (argstr 0 MAXPATH s)) (\<lambda>path s. case path of None \<Rightarrow> fs_err s | Some path \<Rightarrow>
    rbind (namei path s) (\<lambda>r s. case r of None \<Rightarrow> fs_err s
    | Some ip \<Rightarrow>
      rbind (ilock (Some ip) s) (\<lambda>_ s.
      if i_type (nd s ip) \<noteq> T_DIR then put_err ip s
      else
        rbind (lift0 (iunlock (Some ip) s)) (\<lambda>_ s. rderef (p_cwd (procs s p)) (\<lambda>cwd.
        rbind (iput cwd s) (\<lambda>_ s.
        rbind (end_op s) (\<lambda>_ s.
        Done 0 (upd_proc p (p_cwd_update (\<lambda>_. Some ip)) s)))))))))))"

text \<open>
  The arguments of \<open>sys_exec\<close>: each is fetched into a page of its own; the result is the pages, and
  the strings unless the call fails.
\<close>

primrec exec_args :: "u64 \<Rightarrow> nat list \<Rightarrow> u64 list \<Rightarrow> u8 list list \<Rightarrow> kst \<Rightarrow> ((u64 list \<times> u8 list list option) \<times> kst) res" where
  "exec_args uargv [] pages args s = Ok ((pages, None), s)"
| "exec_args uargv (i # is) pages args s =
    kbind (fetchaddr (uargv + 8 * of_nat i) s) (\<lambda>((r, uarg), s).
    if sint r < 0 then Ok ((pages, None), s)
    else if uarg = 0 then Ok ((pages, Some args), s)
    else kbind (mget kalloc s) (\<lambda>(a, s).
      if a = 0 then Ok ((pages, None), s)
      else kbind (fetchstr uarg 4096 s) (\<lambda>(r, s). case r of
        None \<Rightarrow> Ok ((pages @ [a], None), s)
      | Some str \<Rightarrow> exec_args uargv is (pages @ [a]) (args @ [str])
          (upd_mem (\<lambda>m. put m a (str @ [0])) s))))"

definition sys_exec :: "kst \<Rightarrow> (kst, u64) run" where
  "sys_exec s =
    rbind (lift (argstr 0 MAXPATH s)) (\<lambda>path s. case path of None \<Rightarrow> Done ERR s | Some path \<Rightarrow>
    rbind (lift (argaddr 1 s)) (\<lambda>uargv s.
    rbind (lift (exec_args uargv [0..<MAXARG] [] [] s)) (\<lambda>(pages, args) s.
    rbind (case args of None \<Rightarrow> Done ERR s | Some args \<Rightarrow> rbind (exec path args s) (\<lambda>r. Done (scast r))) (\<lambda>ret s.
    rbind (lift0 (kfor (\<lambda>a. mcall (\<lambda>h. kfree h a)) pages s)) (\<lambda>_. Done ret)))))"

definition pipe_undo :: "nat \<Rightarrow> nat \<Rightarrow> kst \<Rightarrow> (kst, u64) run" where
  "pipe_undo rfd wfd s = rbind (fileclose rfd s) (\<lambda>_ s. rbind (fileclose wfd s) (\<lambda>_. Done ERR))"

definition sys_pipe :: "kst \<Rightarrow> (kst, u64) run" where
  "sys_pipe s =
    rbind (lift (myproc s)) (\<lambda>p s.
    rbind (lift (argaddr 0 s)) (\<lambda>fdarray s.
    rbind (pipealloc s) (\<lambda>r s. case r of None \<Rightarrow> Done ERR s
    | Some (rfd, wfd) \<Rightarrow>
      rbind (lift (fdalloc rfd s)) (\<lambda>fd0 s. case fd0 of None \<Rightarrow> pipe_undo rfd wfd s
      | Some fd0 \<Rightarrow> rderef p (\<lambda>p. rbind (lift (fdalloc wfd s)) (\<lambda>fd1 s. case fd1 of
          None \<Rightarrow> pipe_undo rfd wfd (set_ofile p fd0 None s)
        | Some fd1 \<Rightarrow>
          rbind (lift (mget (\<lambda>h. copyout h (p_pagetable (procs s p)) fdarray (le_bytes 4 (of_nat fd0 :: i32))) s)) (\<lambda>r s.
          rbind (if sint r < 0 then Done r s
            else lift (mget (\<lambda>h. copyout h (p_pagetable (procs s p)) (fdarray + 4) (le_bytes 4 (of_nat fd1 :: i32))) s)) (\<lambda>r s.
          if sint r < 0 then pipe_undo rfd wfd (set_ofile p fd1 None (set_ofile p fd0 None s))
          else Done 0 s))))))))"

section \<open>The dispatch table\<close>

definition syscalls :: "nat \<Rightarrow> (kst \<Rightarrow> (kst, u64) run) option" where
  "syscalls n =
    (if 1 \<le> n \<and> n \<le> 32 then
       Some ([sys_fork, sys_exit, sys_wait, sys_pipe, sys_read, sys_kill, sys_exec, sys_fstat, sys_chdir,
         sys_dup, sys_getpid, sys_sbrk, sys_sleep, sys_uptime, sys_open, sys_write, sys_mknod, sys_unlink,
         sys_link, sys_mkdir, sys_close, sys_sigprocmask, sys_sigaction, sys_sigret, sys_kthread_create,
         sys_kthread_id, sys_kthread_exit, sys_kthread_join, sys_bsem_alloc, sys_bsem_free, sys_bsem_down,
         sys_bsem_up] ! (n - 1))
     else None)"

definition syscall :: "kst \<Rightarrow> (kst, unit) run" where
  "syscall s =
    rbind (lift (mythread s)) (\<lambda>t s. rderef t (\<lambda>t.
    let num = (ucast (tf_get s t TF_a7) :: i32)
    in case (if 0 < sint num then syscalls (unat num) else None) of
         Some f \<Rightarrow> rbind (f s) (\<lambda>r s. Done () (tf_set t TF_a0 r s))
       | None \<Rightarrow>
         rbind (lift0 (printf (ascii ''%d %s: unknown sys call %d'' @ [10])
           [PInt (t_tid (thr s t)), PStr (Some (t_name (thr s t))), PInt num] s)) (\<lambda>_ s.
         Done () (tf_set t TF_a0 ERR s))))"

end
