(* ===== verification/Trap.thy ===== *)
theory Trap
  imports Syscall
begin

text \<open>
  Kernel/trap.c: traps from user space and from the kernel, the clock and device interrupts, the
  return to user space with its signal handling, and \<open>forkret\<close>.  The trap registers are arguments: the
  cause, the saved program counter, the previous privilege mode, and what the interrupt controller
  answers to a claim.  Registers that the model does not have (stvec, sstatus, sip) are not written.
\<close>

unbundle bit_operations_syntax

section \<open>Interrupts\<close>

definition trapinit :: "kst \<Rightarrow> kst" where
  "trapinit s = s\<lparr>mach := initlock TicksLock ''time'' (mach s)\<rparr>"

definition clockintr :: "kst \<Rightarrow> kst res" where
  "clockintr s =
    kbind (kacquire TicksLock s) (\<lambda>s.
    kbind (wakeup (Some ChTicks) (s\<lparr>ticks := ticks s + 1\<rparr>)) (\<lambda>s.
    krelease TicksLock s))"

abbreviation UART0_IRQ :: i32 where "UART0_IRQ \<equiv> 10"
abbreviation VIRTIO0_IRQ :: i32 where "VIRTIO0_IRQ \<equiv> 1"

definition devintr :: "u64 \<Rightarrow> i32 \<Rightarrow> kst \<Rightarrow> (i32 \<times> kst) res" where
  "devintr scause irq s =
    (if scause AND 0x8000000000000000 \<noteq> 0 \<and> scause AND 0xff = 9 then
       kbind (if irq = UART0_IRQ then uartintr s
              else if irq = VIRTIO0_IRQ then virtio_disk_intr s
              else if irq \<noteq> 0 then printf (ascii ''unexpected interrupt irq=%d'' @ [10]) [PInt irq] s
              else Ok s) (\<lambda>s. Ok (1, s))
     else if scause = 0x8000000000000001 then
       kbind (if cpuid s = 0 then clockintr s else Ok s) (\<lambda>s. Ok (2, s))
     else Ok (0, s))"

section \<open>Signals on the way out\<close>

text \<open>
  \<open>handling_stop_cont\<close> is entered and left with the lock of the process held; it gives up the CPU
  while the process is stopped.
\<close>

definition stop_iter :: "nat \<Rightarrow> kst \<Rightarrow> (kst, unit option) run" where
  "stop_iter p s =
    (if p_stopped (procs s p) = 0 then Done (Some ()) s
     else if p_killed (procs s p) \<noteq> 0 then
       rbind (lift0 (printf (ascii ''found out i am killed'' @ [10]) [] s)) (\<lambda>_ s.
       Done (Some ()) (upd_proc p (p_stopped_update (\<lambda>_. 0)) s))
     else rbind (lift0 (krelease (ProcLock p) s)) (\<lambda>_ s.
          rbind (yield s) (\<lambda>_ s.
          rbind (lift0 (kacquire (ProcLock p) s)) (\<lambda>_ s. Done None s))))"

definition handling_stop_cont :: "nat \<Rightarrow> kst \<Rightarrow> (kst, unit) run" where
  "handling_stop_cont p s = rloop (stop_iter p) s"

text \<open>A pending signal that is not blocked; the lock of the process is held.\<close>

definition deliver :: "nat \<Rightarrow> nat \<Rightarrow> kst \<Rightarrow> (kst, unit) run" where
  "deliver p signum s =
    (let q = procs s p
     in if p_pending q AND sig_bit signum \<noteq> 0 \<and> p_mask q AND sig_bit signum = 0 then
          rbind (if p_handlers q signum = SIG_DFL then
              (if p_handling q = 0 then
                 rbind (lift0 (krelease (ProcLock p) (upd_proc p (p_handling_update (\<lambda>_. 1)) s))) (\<lambda>_. kexit (- 1))
               else rbind (lift0 (krelease (ProcLock p) s)) (\<lambda>_. kthread_exit (- 1)))
            else
              let s = upd_proc p (\<lambda>q. q\<lparr>p_counter := p_counter q + 1\<rparr>) s;
                  s = (if p_counter (procs s p) = 1 then upd_proc p (\<lambda>q. q\<lparr>p_mask_backup := p_mask q\<rparr>) s else s);
                  s = upd_proc p (\<lambda>q. q\<lparr>p_mask := p_masks q signum\<rparr>) s
              in rbind (lift0 (user_signal_handlng p signum s)) (\<lambda>_ s.
                 Done () (upd_proc p (\<lambda>q. q\<lparr>p_counter := p_counter q - 1, p_mask := p_mask_backup q\<rparr>) s))) (\<lambda>_ s.
          Done () (upd_proc p (\<lambda>q. q\<lparr>p_pending := p_pending q XOR sig_bit signum\<rparr>) s))
        else Done () s)"

definition signals_handling :: "nat \<Rightarrow> kst \<Rightarrow> (kst, unit) run" where
  "signals_handling p s =
    rbind (lift0 (kacquire (ProcLock p) s)) (\<lambda>_ s.
    rbind (handling_stop_cont p s) (\<lambda>_ s.
    rbind (rfor (deliver p) [0..<32] s) (\<lambda>_ s.
    lift0 (krelease (ProcLock p) s))))"

section \<open>To and from user space\<close>

text \<open>What the trampoline is given: the address of the trapframe, the page table and the program counter.\<close>

record uret =
  ur_trapframe :: u64
  ur_satp :: u64
  ur_sepc :: u64

definition MAKE_SATP :: "u64 \<Rightarrow> u64" where
  "MAKE_SATP pagetable = push_bit 60 8 OR drop_bit 12 pagetable"

definition usertrapret :: "kst \<Rightarrow> (kst, uret) run" where
  "usertrapret s =
    rbind (lift (myproc s)) (\<lambda>p s.
    rbind (lift (mythread s)) (\<lambda>t s. rderef p (\<lambda>p.
    rbind (signals_handling p (s\<lparr>mach := intr_off (hart s) (mach s)\<rparr>)) (\<lambda>_ s. rderef t (\<lambda>t.
    let s = tf_set t TF_kernel_satp (kernel_satp s) s;
        s = tf_set t TF_kernel_sp (t_kstack (thr s t) + PGSIZE) s;
        s = tf_set t TF_kernel_trap (sym_usertrap s) s;
        s = tf_set t TF_kernel_hartid (of_nat (hart s)) s
    in Done \<lparr>ur_trapframe = TRAPFRAME +
           (t_trapframe (thr s t) - t_trapframe (thr s (p, 0))) div ucast TF_size * ucast TF_size,
         ur_satp = MAKE_SATP (p_pagetable (procs s p)), ur_sepc = tf_get s t TF_epc\<rparr> s)))))"

definition forkret :: "kst \<Rightarrow> (kst, uret) run" where
  "forkret s =
    rbind (lift (myproc s)) (\<lambda>p s. rderef p (\<lambda>p.
    rbind (lift0 (krelease (ProcLock p) s)) (\<lambda>_ s.
    rbind (if first s then fsinit ROOTDEV (s\<lparr>first := False\<rparr>) else Done () s) (\<lambda>_ s.
    usertrapret s))))"

text \<open>The system call part of \<open>usertrap\<close>.\<close>

definition trap_syscall :: "nat \<Rightarrow> nat \<times> nat \<Rightarrow> kst \<Rightarrow> (kst, unit) run" where
  "trap_syscall p t s =
    rbind (if p_killed (procs s p) \<noteq> 0 then kexit (- 1) s else Done () s) (\<lambda>_ s.
    rbind (if t_killed (thr s t) \<noteq> 0 then kthread_exit (- 1) s else Done () s) (\<lambda>_ s.
    let s = tf_set t TF_epc (tf_get s t TF_epc + 4) s
    in syscall (s\<lparr>mach := intr_on (hart s) (mach s)\<rparr>)))"

definition usertrap :: "bool \<Rightarrow> u64 \<Rightarrow> u64 \<Rightarrow> u64 \<Rightarrow> i32 \<Rightarrow> kst \<Rightarrow> (kst, uret) run" where
  "usertrap spp scause sepc stval irq s =
    (if spp then Fail (FPanic ''usertrap: not from user mode'')
     else
       rbind (lift (myproc s)) (\<lambda>p s.
       rbind (lift (mythread s)) (\<lambda>t s. rderef t (\<lambda>t. rderef p (\<lambda>p.
       let s = tf_set t TF_epc sepc s
       in rbind (if scause = 8 then rbind (trap_syscall p t s) (\<lambda>_. Done 0)
            else rbind (lift (devintr scause irq s)) (\<lambda>which_dev s.
              if which_dev \<noteq> 0 then Done which_dev s
              else
                rbind (lift0 (printf (ascii ''usertrap(): unexpected scause %p pid=%d'' @ [10])
                    [PPtr scause, PInt (p_pid (procs s p))] s)) (\<lambda>_ s.
                rbind (lift0 (printf (ascii ''            sepc=%p stval=%p'' @ [10]) [PPtr sepc, PPtr stval] s)) (\<lambda>_ s.
                Done 0 (upd_proc p (p_killed_update (\<lambda>_. 1)) s))))) (\<lambda>which_dev s.
          rbind (if p_killed (procs s p) \<noteq> 0 then kexit (- 1) s else Done () s) (\<lambda>_ s.
          rbind (if t_killed (thr s t) \<noteq> 0 then kthread_exit (- 1) s else Done () s) (\<lambda>_ s.
          rbind (if which_dev = 2 then yield s else Done () s) (\<lambda>_ s.
          usertrapret s)))))))))"

text \<open>The result is what the handler restores into sepc.\<close>

definition kerneltrap :: "bool \<Rightarrow> u64 \<Rightarrow> u64 \<Rightarrow> i32 \<Rightarrow> kst \<Rightarrow> (kst, u64) run" where
  "kerneltrap spp scause sepc irq s =
    (if \<not> spp then Fail (FPanic ''kerneltrap: not from supervisor mode'')
     else if intr_get (hart s) (mach s) then Fail (FPanic ''kerneltrap: interrupts enabled'')
     else
       rbind (lift (devintr scause irq s)) (\<lambda>which_dev s.
       if which_dev = 0 then Fail (FPanic ''kerneltrap'')
       else
         rbind (lift (mythread s)) (\<lambda>t s.
         rbind (case t of None \<Rightarrow> Done () s
            | Some t \<Rightarrow> if which_dev = 2 \<and> t_state (thr s t) = T_RUNNING then yield s else Done () s) (\<lambda>_.
         Done sepc))))"

end
