(* ===== verification/Ring.thy ===== *)
theory Ring
  imports Kstate
begin

text \<open>
  Ring buffers with free-running counters, as in kernel/pipe.c, kernel/uart.c and
  kernel/console.c: the writer's and the reader's counter are words that wrap around, and the
  element of a counter is found by its value modulo the size.  The contents are a queue of bytes; the
  locale is the interface of a bounded queue that the drivers rely on.
\<close>

section \<open>The contents between two counters\<close>

definition ring_list :: "nat \<Rightarrow> (nat \<Rightarrow> u8) \<Rightarrow> 'l::len word \<Rightarrow> 'l word \<Rightarrow> u8 list" where
  "ring_list n d r w = map (\<lambda>i. d (unat ((r + of_nat i) mod of_nat n))) [0..<unat (w - r)]"

lemma length_ring_list [simp]: "length (ring_list n d r w) = unat (w - r)"
  by (simp add: ring_list_def)

lemma ring_empty: "w = r \<longleftrightarrow> ring_list n d r w = []"
proof -
  have "ring_list n d r w = [] \<longleftrightarrow> unat (w - r) = 0" by (metis length_0_conv length_ring_list)
  then show ?thesis by (auto simp: unat_eq_0)
qed

lemma ring_index:
  fixes r :: "'l::len word"
  assumes "n dvd 2 ^ LENGTH('l)" and "n < 2 ^ LENGTH('l)"
  shows "unat ((r + of_nat i) mod of_nat n) = (unat r + i) mod n"
proof -
  have "unat (r + of_nat i) = (unat r + i) mod 2 ^ LENGTH('l)"
    by (simp add: unat_word_ariths unsigned_of_nat take_bit_eq_mod mod_simps)
  moreover have "unat (of_nat n :: 'l word) = n" using assms(2) by (rule unat_of_nat_small)
  ultimately show ?thesis using assms(1) by (simp add: unat_mod mod_mod_cancel)
qed

lemma word_count_Suc:
  fixes r w :: "'l::len word"
  assumes "unat (w - r) < n" and "n < 2 ^ LENGTH('l)"
  shows "unat (w + 1 - r) = Suc (unat (w - r))"
proof -
  have "w + 1 - r = of_nat (Suc (unat (w - r)))" by simp
  then show ?thesis using assms by (simp only: unat_of_nat_small)
qed

lemma word_count_pred:
  fixes r w :: "'l::len word"
  assumes "w \<noteq> r"
  shows "Suc (unat (w - (r + 1))) = unat (w - r)"
proof -
  have "w - r \<noteq> 0" using assms by simp
  then have "0 < unat (w - r)" by (simp add: unat_gt_0)
  moreover have "unat (w - (r + 1)) = unat (w - r) - 1"
    unfolding diff_diff_eq [symmetric] using \<open>w - r \<noteq> 0\<close> by (rule unat_minus_one)
  ultimately show ?thesis by linarith
qed

lemma ring_put:
  fixes r w :: "'l::len word"
  assumes n: "n dvd 2 ^ LENGTH('l)" "n < 2 ^ LENGTH('l)" and room: "unat (w - r) < n"
  shows "ring_list n (d(unat (w mod of_nat n) := c)) r (w + 1) = ring_list n d r w @ [c]"
proof -
  let ?k = "unat (w - r)"
  have w: "w = r + of_nat ?k" by simp
  have last: "unat (w mod of_nat n) = (unat r + ?k) mod n"
    using ring_index [OF n, of r ?k] w by simp
  have "(unat r + i) mod n \<noteq> (unat r + ?k) mod n" if "i < ?k" for i
  proof
    assume "(unat r + i) mod n = (unat r + ?k) mod n"
    then have "n dvd (unat r + ?k) - (unat r + i)"
      using that by (metis add_le_cancel_left less_imp_le_nat mod_eq_dvd_iff_nat)
    then show False using that room by (auto dest: dvd_imp_le)
  qed
  then show ?thesis
    unfolding ring_list_def word_count_Suc [OF room n(2)]
    by (simp add: last ring_index [OF n])
qed

lemma ring_get:
  fixes r w :: "'l::len word"
  assumes "w \<noteq> r"
  shows "ring_list n d r w = d (unat (r mod of_nat n)) # ring_list n d (r + 1) w"
proof -
  let ?k = "unat (w - (r + 1))"
  have "[0..<unat (w - r)] = 0 # map Suc [0..<?k]"
    unfolding word_count_pred [OF assms, symmetric]
    by (simp add: map_Suc_upt upt_conv_Cons del: upt_Suc)
  then show ?thesis by (simp add: ring_list_def comp_def add.assoc)
qed

section \<open>Bounded queues\<close>

locale byte_fifo =
  fixes inv :: "'s \<Rightarrow> bool" and abs :: "'s \<Rightarrow> u8 list" and cap :: nat
    and enq :: "u8 \<Rightarrow> 's \<Rightarrow> 's" and deq :: "'s \<Rightarrow> 's" and front :: "'s \<Rightarrow> u8"
  assumes abs_enq: "inv s \<Longrightarrow> length (abs s) < cap \<Longrightarrow> abs (enq c s) = abs s @ [c]"
    and inv_enq: "inv s \<Longrightarrow> length (abs s) < cap \<Longrightarrow> inv (enq c s)"
    and abs_deq: "inv s \<Longrightarrow> abs s \<noteq> [] \<Longrightarrow> abs s = front s # abs (deq s)"
    and inv_deq: "inv s \<Longrightarrow> abs s \<noteq> [] \<Longrightarrow> inv (deq s)"
    and bounded: "inv s \<Longrightarrow> length (abs s) \<le> cap"
begin

lemma enq_many:
  "inv s \<Longrightarrow> length (abs s) + length bs \<le> cap \<Longrightarrow> inv (fold enq bs s) \<and> abs (fold enq bs s) = abs s @ bs"
proof (induction bs arbitrary: s)
  case (Cons b bs)
  then have "inv (enq b s)" "abs (enq b s) = abs s @ [b]" by (simp_all add: abs_enq inv_enq)
  then show ?case using Cons.IH [of "enq b s"] Cons.prems by simp
qed simp

lemma deq_many:
  "inv s \<Longrightarrow> n \<le> length (abs s) \<Longrightarrow> inv ((deq ^^ n) s) \<and> abs ((deq ^^ n) s) = drop n (abs s)"
proof (induction n arbitrary: s)
  case (Suc n)
  then have ne: "abs s \<noteq> []" by auto
  have i: "inv (deq s)" using Suc.prems(1) ne by (rule inv_deq)
  have "tl (abs s) = tl (front s # abs (deq s))" using abs_deq [OF Suc.prems(1) ne] by (rule arg_cong)
  then have t: "abs (deq s) = tl (abs s)" by simp
  then have "n \<le> length (abs (deq s))" using Suc.prems(2) by simp
  then have "inv ((deq ^^ n) (deq s)) \<and> abs ((deq ^^ n) (deq s)) = drop n (tl (abs s))"
    using Suc.IH [OF i] t by simp
  then show ?case by (simp only: funpow_Suc_right comp_apply drop_Suc)
qed simp

end

end
