(* ===== verification/Pipefifo.thy ===== *)
theory Pipefifo
  imports Pipe Ring Ucopy
begin

text \<open>
  A pipe is a queue of at most \<open>PIPESIZE\<close> bytes: the writer's loop appends to it, the reader's loop
  takes from its front, whatever their counters are, wrapped around or not.
\<close>

definition pipe_inv :: "pipe \<Rightarrow> bool" where
  "pipe_inv x = (unat (pi_nwrite x - pi_nread x) \<le> 512)"

definition pipe_bytes :: "pipe \<Rightarrow> u8 list" where
  "pipe_bytes x = ring_list 512 (pi_data x) (pi_nread x) (pi_nwrite x)"

definition pipe_put :: "u8 \<Rightarrow> pipe \<Rightarrow> pipe" where
  "pipe_put c x = x\<lparr>pi_data := (pi_data x)(unat (pi_nwrite x mod PIPESIZE) := c), pi_nwrite := pi_nwrite x + 1\<rparr>"

definition pipe_get :: "pipe \<Rightarrow> pipe" where
  "pipe_get x = x\<lparr>pi_nread := pi_nread x + 1\<rparr>"

definition pipe_front :: "pipe \<Rightarrow> u8" where
  "pipe_front x = pi_data x (unat (pi_nread x mod PIPESIZE))"

lemma pipe_full_iff:
  "pi_nwrite x = pi_nread x + PIPESIZE \<longleftrightarrow> length (pipe_bytes x) = 512"
proof -
  have "pi_nwrite x = pi_nread x + PIPESIZE \<longleftrightarrow> pi_nwrite x - pi_nread x = 512" by (auto simp: algebra_simps)
  also have "\<dots> \<longleftrightarrow> unat (pi_nwrite x - pi_nread x) = 512"
    using word_unat_eq_iff [of "pi_nwrite x - pi_nread x" 512] by simp
  finally show ?thesis by (simp add: pipe_bytes_def)
qed

lemma pipe_empty_iff: "pi_nread x = pi_nwrite x \<longleftrightarrow> pipe_bytes x = []"
  unfolding pipe_bytes_def using ring_empty [of "pi_nwrite x" "pi_nread x"] by auto

interpretation pq: byte_fifo pipe_inv pipe_bytes 512 pipe_put pipe_get pipe_front
proof
  fix x c assume i: "pipe_inv x" and l: "length (pipe_bytes x) < 512"
  have room: "unat (pi_nwrite x - pi_nread x) < 512" using l by (simp add: pipe_bytes_def)
  show "pipe_bytes (pipe_put c x) = pipe_bytes x @ [c]"
    using ring_put [where 'l = 32, of 512 "pi_nwrite x" "pi_nread x" "pi_data x" c] room
    by (simp add: pipe_bytes_def pipe_put_def)
  show "pipe_inv (pipe_put c x)"
    using word_count_Suc [OF room] by (simp add: pipe_inv_def pipe_put_def room Suc_le_eq)
next
  fix x assume i: "pipe_inv x" and "pipe_bytes x \<noteq> []"
  then have ne: "pi_nwrite x \<noteq> pi_nread x" by (metis pipe_empty_iff)
  show "pipe_bytes x = pipe_front x # pipe_bytes (pipe_get x)"
    using ring_get [OF ne, of 512 "pi_data x"] by (simp add: pipe_bytes_def pipe_get_def pipe_front_def)
  show "pipe_inv (pipe_get x)"
    using word_count_pred [OF ne] i by (simp add: pipe_inv_def pipe_get_def)
next
  fix x assume "pipe_inv x"
  then show "length (pipe_bytes x) \<le> 512" by (simp add: pipe_inv_def pipe_bytes_def)
qed

section \<open>The writer's and the reader's loop\<close>

lemma pp_upd_pipe [simp]: "pp (upd_pipe a f s) b = (if b = a then f (pp s a) else pp s b)"
  "mach (upd_pipe a f s) = mach s" "hart (upd_pipe a f s) = hart s" "procs (upd_pipe a f s) = procs s"
  "thr (upd_pipe a f s) t = thr s t"
  by (simp_all add: upd_pipe_def)

lemma upd_pipe_mach: "upd_pipe a f (s\<lparr>mach := m\<rparr>) = upd_pipe a f s\<lparr>mach := m\<rparr>"
  by (simp add: upd_pipe_def upd_fs_def)

text \<open>The bytes \<open>bs\<close> are those process \<open>pr\<close> has at the user address \<open>a\<close>, as the kernel reads them.\<close>

definition user_bytes :: "kst \<Rightarrow> nat \<Rightarrow> u64 \<Rightarrow> u8 list \<Rightarrow> bool" where
  "user_bytes s pr a bs = (\<forall>i < length bs.
     copyin (hart s) (p_pagetable (procs s pr)) (a + of_nat i) 1 (mach s) = Ok (0, [bs ! i]))"

lemma copyin_none [simp]: "copyin h root va 0 m = Ok (0, [])"
  by (subst copyin.simps) simp

lemma copyin_one:
  assumes "copyin h root va 1 m = Ok (r, bs)"
  shows "r = - 1 \<or> r = 0 \<and> bs = [hd bs]"
  using assms
  by (subst (asm) copyin.simps)
    (auto simp: Let_def chunk_eq kbind_eq_Ok get_def split: if_splits)

text \<open>The loop started after \<open>i\<close> bytes and wrote \<open>n\<close> more.\<close>

fun pwrote :: "nat \<Rightarrow> nat \<Rightarrow> pwrite \<Rightarrow> bool" where
  "pwrote i n (PwDone j) = (j = i + n)"
| "pwrote i n (PwFull j) = (j = i + n)"
| "pwrote i n PwDead = (n = 0)"

lemma user_bytes_Cons:
  "user_bytes s pr a (b # bs) \<longleftrightarrow>
    copyin (hart s) (p_pagetable (procs s pr)) a 1 (mach s) = Ok (0, [b]) \<and> user_bytes s pr (a + 1) bs"
  by (simp add: user_bytes_def All_less_Suc2 algebra_simps)

lemma pipe_fill_Suc:
  "pipe_fill (Suc k) pi pr addr i s =
    (if pi_readopen (pp s pi) = 0 \<or> p_killed (procs s pr) \<noteq> 0 then Ok (PwDead, s)
     else if pi_nwrite (pp s pi) = pi_nread (pp s pi) + PIPESIZE then Ok (PwFull i, s)
     else kbind (copyin (hart s) (p_pagetable (procs s pr)) (addr + of_nat i) 1 (mach s)) (\<lambda>(r, bs).
       if r = - 1 then Ok (PwDone i, s)
       else pipe_fill k pi pr addr (i + 1) (upd_pipe pi (pipe_put (hd bs)) s)))"
  by (simp only: pipe_fill.simps pipe_put_def [abs_def])

lemma pipe_put_open [simp]: "pi_readopen (pipe_put c x) = pi_readopen x" "pi_writeopen (pipe_put c x) = pi_writeopen x"
  by (simp_all add: pipe_put_def)

declare pipe_fill.simps(2) [simp del]

lemma pipe_fill_alive:
  assumes "pi_readopen (pp s pi) \<noteq> 0" and "p_killed (procs s pr) = 0" and "pipe_fill k pi pr addr i s = Ok (r, s')"
  shows "r \<noteq> PwDead"
  using assms
proof (induction k arbitrary: i s)
  case (Suc k)
  show ?case
    using Suc.prems Suc.IH [of "upd_pipe pi (pipe_put c) s" "Suc i" for c]
    by (auto simp: kbind_eq_Ok pipe_fill_Suc split: if_splits)
qed auto

lemma pipe_fill_appends:
  assumes "pipe_inv (pp s pi)" and "pipe_fill k pi pr addr i s = Ok (r, s')"
  shows "\<exists>bs. pwrote i (length bs) r \<and> length bs \<le> k \<and> user_bytes s pr (addr + of_nat i) bs \<and>
     s' = upd_pipe pi (fold pipe_put bs) s \<and> length (pipe_bytes (pp s pi)) + length bs \<le> 512"
  using assms
proof (induction k arbitrary: i s)
  case 0
  then show ?case by (intro exI [of _ "[]"]) (auto simp: user_bytes_def upd_pipe_def upd_fs_def pq.bounded)
next
  case (Suc k)
  let ?root = "p_pagetable (procs s pr)"
  consider (stop) "s' = s" "pwrote i 0 r"
    | (go) b where "pi_nwrite (pp s pi) \<noteq> pi_nread (pp s pi) + PIPESIZE"
      "copyin (hart s) ?root (addr + of_nat i) 1 (mach s) = Ok (0, [b])"
      "pipe_fill k pi pr addr (i + 1) (upd_pipe pi (pipe_put b) s) = Ok (r, s')" "r \<noteq> PwDead"
  proof (cases "pi_readopen (pp s pi) = 0 \<or> p_killed (procs s pr) \<noteq> 0 \<or>
      pi_nwrite (pp s pi) = pi_nread (pp s pi) + PIPESIZE")
    case True
    then show thesis using Suc.prems(2) stop by (auto simp: pipe_fill_Suc split: if_splits)
  next
    case False
    then obtain q bs where q: "copyin (hart s) ?root (addr + of_nat i) 1 (mach s) = Ok (q, bs)"
      and f: "(if q = - 1 then Ok (PwDone i, s)
        else pipe_fill k pi pr addr (i + 1) (upd_pipe pi (pipe_put (hd bs)) s)) = Ok (r, s')"
      using Suc.prems(2) by (auto simp: pipe_fill_Suc kbind_eq_Ok)
    moreover have "r \<noteq> PwDead" using False pipe_fill_alive [OF _ _ Suc.prems(2)] by auto
    ultimately show thesis using copyin_one [OF q] False stop go by (auto split: if_splits)
  qed
  then show ?case
  proof cases
    case stop
    then show ?thesis
      using Suc.prems(1)
      by (intro exI [of _ "[]"]) (auto simp: user_bytes_def upd_pipe_def upd_fs_def pq.bounded)
  next
    case (go b)
    let ?s = "upd_pipe pi (pipe_put b) s"
    have room: "length (pipe_bytes (pp s pi)) < 512"
      using go(1) Suc.prems(1) pq.bounded pipe_full_iff by (metis le_neq_implies_less)
    have i': "pipe_inv (pp ?s pi)" using Suc.prems(1) room by (simp add: pq.inv_enq)
    obtain bs where bs: "pwrote (i + 1) (length bs) r" "length bs \<le> k"
      "user_bytes ?s pr (addr + of_nat (i + 1)) bs" "s' = upd_pipe pi (fold pipe_put bs) ?s"
      "length (pipe_bytes (pp ?s pi)) + length bs \<le> 512"
      using Suc.IH [OF i' go(3)] by blast
    have "user_bytes s pr (addr + of_nat i) (b # bs)"
      using bs(3) go(2) by (simp add: user_bytes_Cons) (simp add: user_bytes_def algebra_simps)
    moreover have "s' = upd_pipe pi (fold pipe_put (b # bs)) s"
      using bs(4) by (simp add: upd_pipe_def upd_fs_def comp_def)
    moreover have "pwrote i (length (b # bs)) r" using bs(1) go(4) by (cases r) auto
    ultimately show ?thesis
      using bs(2,5) pq.abs_enq [OF Suc.prems(1) room] by (intro exI [of _ "b # bs"]) (simp add: comp_def)
  qed
qed

lemma pipe_drain_Suc:
  "pipe_drain (Suc k) pi pr addr i s =
    (if pi_nread (pp s pi) = pi_nwrite (pp s pi) then Ok (i, s)
     else kbind (mget (\<lambda>h. copyout h (p_pagetable (procs s pr)) (addr + of_nat i) [pipe_front (pp s pi)])
         (upd_pipe pi pipe_get s)) (\<lambda>(r, s).
       if r = - 1 then Ok (i, s) else pipe_drain k pi pr addr (i + 1) s))"
  by (simp only: pipe_drain.simps pipe_get_def [abs_def] pipe_front_def Let_def pp_upd_pipe(4))

declare pipe_drain.simps(2) [simp del]

text \<open>What the reader's loop does to memory: the first \<open>n\<close> bytes of \<open>bs\<close> are at the user address \<open>va\<close>.\<close>

definition stored :: "u64 \<Rightarrow> u64 \<Rightarrow> u8 list \<Rightarrow> mem \<Rightarrow> mem \<Rightarrow> bool" where
  "stored root va bs w w' \<longleftrightarrow> pte w' root = pte w root \<and> tables w' root = tables w root \<and>
    (\<forall>i < length bs. w' (uaddr w root (va + of_nat i)) = bs ! i) \<and>
    (\<forall>x. (\<forall>i < length bs. x \<noteq> uaddr w root (va + of_nat i)) \<longrightarrow> w' x = w x)"

lemma stored_uaddr: "stored root va bs w w' \<Longrightarrow> uaddr w' root = uaddr w root"
  by (simp add: stored_def uaddr_def fun_eq_iff)

lemma urange_take: "urange w root va n \<Longrightarrow> k \<le> n \<Longrightarrow> urange w root va k"
  by (auto simp: urange_def inj_on_def)

lemma stored_Cons:
  assumes "stored root va [b] w w1" and "stored root (va + 1) bs w1 w2" and "urange w root va (Suc (length bs))"
  shows "stored root va (b # bs) w w2"
proof -
  have u: "uaddr w1 root = uaddr w root" using assms(1) by (rule stored_uaddr)
  have inj: "inj_on (\<lambda>i. uaddr w root (va + of_nat i)) {..<Suc (length bs)}" using assms(3) by (simp add: urange_def)
  have "uaddr w root va \<noteq> uaddr w root (va + 1 + of_nat i)" if "i < length bs" for i
    using inj_onD [OF inj, of 0 "Suc i"] that by (auto simp: algebra_simps)
  then have first: "w2 (uaddr w root va) = b"
    using assms(1,2) by (auto simp: stored_def u)
  show ?thesis
    unfolding stored_def
  proof (intro conjI allI impI)
    fix i assume "i < length (b # bs)"
    then show "w2 (uaddr w root (va + of_nat i)) = (b # bs) ! i"
      using first assms(2) by (cases i) (auto simp: stored_def u algebra_simps)
  next
    fix x assume x: "\<forall>i < length (b # bs). x \<noteq> uaddr w root (va + of_nat i)"
    have "x \<noteq> uaddr w root (va + 1 + of_nat i)" if "i < length bs" for i
      using x [rule_format, of "Suc i"] that by (simp add: algebra_simps)
    moreover have "x \<noteq> uaddr w root va" using x [rule_format, of 0] by simp
    ultimately show "w2 x = w x" using assms(1,2) by (auto simp: stored_def u)
  qed (use assms in \<open>auto simp: stored_def\<close>)
qed

lemma pipe_drain_takes:
  assumes "pipe_inv (pp s pi)" and "pt_ok (mach s) (p_pagetable (procs s pr))"
    and "urange (kmem s) (p_pagetable (procs s pr)) (addr + of_nat i) k"
  defines "n \<equiv> min k (length (pipe_bytes (pp s pi)))"
  shows "\<exists>w'. pipe_drain k pi pr addr i s = Ok (i + n, (upd_pipe pi (pipe_get ^^ n) s)\<lparr>mach := (mach s)\<lparr>pmem := w'\<rparr>\<rparr>) \<and>
    stored (p_pagetable (procs s pr)) (addr + of_nat i) (take k (pipe_bytes (pp s pi))) (kmem s) w' \<and>
    pt_ok ((mach s)\<lparr>pmem := w'\<rparr>) (p_pagetable (procs s pr))"
  using assms(1-3) unfolding n_def
proof (induction k arbitrary: i s)
  case 0
  then show ?case by (intro exI [of _ "kmem s"]) (simp add: stored_def upd_pipe_def upd_fs_def)
next
  case (Suc k)
  show ?case
  proof (cases "pi_nread (pp s pi) = pi_nwrite (pp s pi)")
    case True
    then have "pipe_bytes (pp s pi) = []" by (simp add: pipe_empty_iff)
    then show ?thesis using True Suc.prems
      by (intro exI [of _ "kmem s"]) (simp add: stored_def upd_pipe_def upd_fs_def pipe_drain_Suc)
  next
    case False
    then have ne: "pipe_bytes (pp s pi) \<noteq> []" by (simp add: pipe_empty_iff)
    let ?root = "p_pagetable (procs s pr)" and ?c = "pipe_front (pp s pi)" and ?va = "addr + of_nat i"
    have r1: "urange (kmem s) ?root ?va (length [?c])"
      using Suc.prems(3) by (rule urange_take) simp
    obtain w1 where w1: "copyout (hart s) ?root ?va [?c] (mach s) = Ok (0, (mach s)\<lparr>pmem := w1\<rparr>)"
      "stored ?root ?va [?c] (kmem s) w1" "pt_ok ((mach s)\<lparr>pmem := w1\<rparr>) ?root"
      using copyout_bytes [OF Suc.prems(2) r1, of "hart s"] unfolding stored_def by blast
    let ?s1 = "(upd_pipe pi pipe_get s)\<lparr>mach := (mach s)\<lparr>pmem := w1\<rparr>\<rparr>"
    have r2: "urange w1 ?root (addr + of_nat (i + 1)) k"
      using urange_drop [of "kmem s" ?root ?va 1 k] Suc.prems(3) w1(2) urange_frame(1) [of "kmem s" ?root _ k w1]
      by (simp add: stored_def algebra_simps)
    have inv1: "pipe_inv (pp ?s1 pi)" using Suc.prems(1) ne by (simp add: pq.inv_deq)
    obtain w2 where w2: "pipe_drain k pi pr addr (i + 1) ?s1 = Ok (i + 1 + min k (length (pipe_bytes (pp ?s1 pi))),
          (upd_pipe pi (pipe_get ^^ min k (length (pipe_bytes (pp ?s1 pi)))) ?s1)\<lparr>mach := (mach ?s1)\<lparr>pmem := w2\<rparr>\<rparr>)"
      "stored ?root (addr + of_nat (i + 1)) (take k (pipe_bytes (pp ?s1 pi))) w1 w2" "pt_ok ((mach s)\<lparr>pmem := w2\<rparr>) ?root"
      using Suc.IH [OF inv1, of "i + 1"] w1(3) r2 by auto
    have b: "pipe_bytes (pp s pi) = ?c # pipe_bytes (pp ?s1 pi)"
      using pq.abs_deq [OF Suc.prems(1) ne] by simp
    have k: "urange (kmem s) ?root ?va (Suc (length (take k (pipe_bytes (pp ?s1 pi)))))"
      using Suc.prems(3) by (rule urange_take) simp
    have "stored ?root ?va (?c # take k (pipe_bytes (pp ?s1 pi))) (kmem s) w2"
      using w2(2) by (intro stored_Cons [OF w1(2) _ k]) (simp add: algebra_simps)
    moreover have "pipe_drain (Suc k) pi pr addr i s = pipe_drain k pi pr addr (i + 1) ?s1"
      using False w1(1) by (simp add: pipe_drain_Suc mget_def)
    moreover have "upd_pipe pi (pipe_get ^^ n) ?s1\<lparr>mach := m\<rparr> = upd_pipe pi (pipe_get ^^ Suc n) s\<lparr>mach := m\<rparr>" for n m
      by (simp add: upd_pipe_def upd_fs_def funpow_Suc_right comp_def del: funpow.simps)
    ultimately show ?thesis
      using w2(1,3) by (intro exI [of _ w2]) (simp add: b del: funpow.simps)
  qed
qed

lemma stored_user_bytes:
  assumes st: "stored root va bs (kmem s) w'" and u: "urange (kmem s) root va (length bs)"
    and s': "kmem s' = w'" "pt_ok (mach s') root" "p_pagetable (procs s' pr) = root"
  shows "user_bytes s' pr va bs"
  unfolding user_bytes_def
proof (intro allI impI)
  fix i assume i: "i < length bs"
  have "urange w' root va (length bs)" using urange_frame(1) [OF u] st by (simp add: stored_def)
  then have "urange w' root (va + of_nat i) 1"
    using urange_drop [of w' root va i 1] urange_take [of w' root va "length bs" "i + 1"] i by simp
  then show "copyin (hart s') (p_pagetable (procs s' pr)) (va + of_nat i) 1 (mach s') = Ok (0, [bs ! i])"
    using copyin_bytes [of "mach s'" root "va + of_nat i" 1 "hart s'"] s' st i stored_uaddr [OF st]
    by (simp add: stored_def)
qed

section \<open>Interleaved readers and writers\<close>

text \<open>
  The history of a pipe: steps of writers and of readers, each a run of its loop between two sleeps, in any
  order and by any processes, and steps that leave the buffer of the pipe alone.  The lists are the
  bytes the writers passed to write that were accepted and the bytes that readers found in their buffers.
\<close>

inductive pipe_history :: "u64 \<Rightarrow> u8 list \<Rightarrow> u8 list \<Rightarrow> kst \<Rightarrow> bool" for pi where
  created: "pipe_bytes (pp s pi) = [] \<Longrightarrow> pipe_history pi [] [] s"
| written: "pipe_history pi sent received s \<Longrightarrow> pipe_fill k pi pr addr i s = Ok (r, s') \<Longrightarrow>
    pwrote i (length bs) r \<Longrightarrow> user_bytes s pr (addr + of_nat i) bs \<Longrightarrow>
    pipe_history pi (sent @ bs) received s'"
| read: "pipe_history pi sent received s \<Longrightarrow> pt_ok (mach s) (p_pagetable (procs s pr)) \<Longrightarrow>
    urange (kmem s) (p_pagetable (procs s pr)) addr k \<Longrightarrow> pipe_drain k pi pr addr 0 s = Ok (length bs, s') \<Longrightarrow>
    user_bytes s' pr addr bs \<Longrightarrow> pipe_history pi sent (received @ bs) s'"
| elsewhere: "pipe_history pi sent received s \<Longrightarrow> pi_data (pp s' pi) = pi_data (pp s pi) \<Longrightarrow>
    pi_nread (pp s' pi) = pi_nread (pp s pi) \<Longrightarrow> pi_nwrite (pp s' pi) = pi_nwrite (pp s pi) \<Longrightarrow>
    pipe_history pi sent received s'"

lemma user_bytes_unique:
  "user_bytes s pr a bs \<Longrightarrow> user_bytes s pr a bs' \<Longrightarrow> length bs = length bs' \<Longrightarrow> bs = bs'"
  by (auto simp: user_bytes_def list_eq_iff_nth_eq)

lemma pipe_history_inv:
  assumes "pipe_history pi sent received s"
  shows "pipe_inv (pp s pi) \<and> received @ pipe_bytes (pp s pi) = sent"
  using assms
proof (induction rule: pipe_history.induct)
  case (created s)
  then show ?case using length_ring_list by (metis append_Nil le0 list.size(3) pipe_bytes_def pipe_inv_def)
next
  case (written sent received s k pr addr i r s' bs)
  then obtain bs' where bs': "pwrote i (length bs') r" "user_bytes s pr (addr + of_nat i) bs'"
    "s' = upd_pipe pi (fold pipe_put bs') s" "length (pipe_bytes (pp s pi)) + length bs' \<le> 512"
    using pipe_fill_appends [of s pi k pr addr i r s'] by blast
  have "length bs' = length bs" using bs'(1) written(3) by (cases r) auto
  then have "bs' = bs" using bs'(2) written(4) by (metis user_bytes_unique)
  then show ?case using pq.enq_many [of "pp s pi" bs] written.IH bs'(3,4) by auto
next
  case (read sent received s pr addr k bs s')
  let ?b = "pipe_bytes (pp s pi)" and ?root = "p_pagetable (procs s pr)"
  obtain w' where w: "s' = (upd_pipe pi (pipe_get ^^ length bs) s)\<lparr>mach := (mach s)\<lparr>pmem := w'\<rparr>\<rparr>"
    "length bs = min k (length ?b)" "stored ?root addr (take k ?b) (kmem s) w'" "pt_ok ((mach s)\<lparr>pmem := w'\<rparr>) ?root"
    using pipe_drain_takes [of s pi pr addr 0 k] read by auto
  have "user_bytes s' pr addr (take k ?b)"
    using w read(3) by (intro stored_user_bytes [OF w(3)]) (auto intro: urange_take)
  then have "bs = take k ?b" using read(5) w(2) by (intro user_bytes_unique [of s' pr addr]) auto
  then have "bs @ drop (length bs) ?b = ?b" using w(2) by (cases "k \<le> length ?b") auto
  then show ?case using pq.deq_many [of "pp s pi" "length bs"] read.IH w(1,2) by auto
next
  case (elsewhere sent received s s')
  then show ?case by (simp add: pipe_inv_def pipe_bytes_def)
qed


section \<open>A whole read\<close>

lemma piperead_ready:
  assumes run: "runs p t s" "kok s" and free: "lock_free (PipeLock pi) (mach s)"
      "\<forall>q < NPROC. lock_free (ProcLock q) (mach s)"
    and inv: "pipe_inv (pp s pi)" and ready: "pipe_bytes (pp s pi) \<noteq> [] \<or> pi_writeopen (pp s pi) = 0"
    and buf: "pt_ok (mach s) (p_pagetable (procs s p))" "urange (kmem s) (p_pagetable (procs s p)) addr (nat (sint n))"
  defines "bs \<equiv> take (nat (sint n)) (pipe_bytes (pp s pi))"
  shows "\<exists>w'. piperead pi addr n s = Done (of_nat (length bs)) (ktouch (woken (Some (ChPipeW pi)) {..<NPROC}
       ((upd_pipe pi (pipe_get ^^ length bs) s)\<lparr>mach := (mach s)\<lparr>pmem := w'\<rparr>\<rparr>))) \<and>
     stored (p_pagetable (procs s p)) addr bs (kmem s) w' \<and>
     pt_ok ((mach s)\<lparr>pmem := w'\<rparr>) (p_pagetable (procs s p))"
proof -
  let ?s = "klocked (PipeLock pi) s" and ?root = "p_pagetable (procs s p)" and ?n = "nat (sint n)"
  have ok: "pt_ok (mach ?s) ?root" using buf(1) by (rule pt_ok_frame [rotated -1]) (simp_all add: lock_simps)
  have wait: "rloop (piperead_wait pi p) ?s = Done True ?s"
    using ready by (intro rloop_simps(1)) (auto simp: piperead_wait_def pipe_empty_iff)
  obtain w' where w: "pipe_drain ?n pi p addr 0 ?s = Ok (length bs, (upd_pipe pi (pipe_get ^^ length bs) ?s)
        \<lparr>mach := (mach ?s)\<lparr>pmem := w'\<rparr>\<rparr>)"
      "stored ?root addr bs (kmem s) w'" "pt_ok ((mach ?s)\<lparr>pmem := w'\<rparr>) ?root"
    using pipe_drain_takes [of ?s pi p addr 0 ?n] inv ok buf(2)
    by (auto simp: bs_def lock_simps min.commute)
  let ?s1 = "(upd_pipe pi (pipe_get ^^ length bs) s)\<lparr>mach := locked_by (hart s) (PipeLock pi) ((mach s)\<lparr>pmem := w'\<rparr>)\<rparr>"
  have drain: "pipe_drain ?n pi p addr 0 ?s = Ok (length bs, ?s1)"
    using w(1) by (simp add: lock_simps upd_pipe_mach)
  have wake: "wakeup (Some (ChPipeW pi)) ?s1 = Ok (ktouch (woken (Some (ChPipeW pi)) {..<NPROC} ?s1))"
    using free(2) by (intro wakeup_eq) (simp_all add: lock_simps)
  have "pt_ok ((mach s)\<lparr>pmem := w'\<rparr>) ?root"
    using w(3) by (rule pt_ok_frame [rotated -1]) (simp_all add: lock_simps)
  moreover have "piperead pi addr n s = Done (of_nat (length bs)) (ktouch (woken (Some (ChPipeW pi)) {..<NPROC}
       ((upd_pipe pi (pipe_get ^^ length bs) s)\<lparr>mach := (mach s)\<lparr>pmem := w'\<rparr>\<rparr>)))"
    using run free(1) wait drain wake
    by (simp add: piperead_def runs_def lock_simps woken_mach)
  ultimately show ?thesis using w(2) by blast
qed

lemma woken_thr:
  "q < NPROC \<Longrightarrow> j < NTHREAD \<Longrightarrow> p_state (procs s q) = RUNNABLE \<Longrightarrow> t_state (thr s (q, j)) = T_SLEEPING \<Longrightarrow>
   t_chan (thr s (q, j)) = ch \<Longrightarrow> t_state (thr (woken ch {..<NPROC} s) (q, j)) = T_RUNNABLE"
  by (simp add: woken_def wake_threads_def thr_def)

lemma woken_pagetable [simp]: "p_pagetable (procs (woken ch P s) q) = p_pagetable (procs s q)"
  by (simp add: woken_def wake_threads_def)

section \<open>Properties\<close>


text \<open>A process with a page of memory and a pipe.\<close>

definition pipe_demo :: kst where
  "pipe_demo = upd_proc 0 (p_pagetable_update (\<lambda>_. 0x80022000))
    (upd_pipe 0x80026000 (\<lambda>x. x\<lparr>pi_readopen := 1, pi_writeopen := 1\<rparr>) (one_thread one_page))"

lemma pipe_demo_fields:
  "p_pagetable (procs pipe_demo 0) = 0x80022000" "mach pipe_demo = upd_cpu 0 (\<lambda>c. c\<lparr>cpu_proc := Some 0, cpu_thread := Some (0, 0)\<rparr>) one_page"
  "pipe_bytes (pp pipe_demo 0x80026000) = []" "pi_readopen (pp pipe_demo 0x80026000) = 1"
  "p_killed (procs pipe_demo 0) = 0" "hart pipe_demo = 0"
  by (simp_all add: pipe_demo_def one_thread_def boot_kst_def upd_mycpu_def pipe_bytes_def ring_list_def
      zero_fs_def zero_proc_def)

lemma pipe_demo_memory: "pt_ok (mach pipe_demo) 0x80022000" "urange (kmem pipe_demo) 0x80022000 0 8"
proof -
  show "pt_ok (mach pipe_demo) 0x80022000"
    using one_page_ok by (rule pt_ok_frame [rotated -1]) (simp_all add: pipe_demo_fields upd_cpu_def)
  show "urange (kmem pipe_demo) 0x80022000 0 8"
    using one_page_urange [of 8] by (simp add: pipe_demo_fields upd_cpu_def)
qed


text \<open>
  C13. A read of a pipe that holds bytes, or that no writer has open, does not wait: it returns the number
  of bytes it read, as many as were asked for or there were and 0 at the end of the stream; the
  reader's buffer then holds the first bytes of the pipe and the pipe the rest, the pipe is
  unlocked, and every thread that was waiting for room in it is runnable.
\<close>

theorem piperead_delivers:
  assumes "runs p t s" and "kok s" and "lock_free (PipeLock pi) (mach s)"
    and "\<forall>q < NPROC. lock_free (ProcLock q) (mach s)" and "pipe_inv (pp s pi)"
    and "pipe_bytes (pp s pi) \<noteq> [] \<or> pi_writeopen (pp s pi) = 0"
    and "pt_ok (mach s) (p_pagetable (procs s p))" and "urange (kmem s) (p_pagetable (procs s p)) addr (nat (sint n))"
  shows "\<exists>s' bs. piperead pi addr n s = Done (of_nat (length bs)) s' \<and> bs = take (nat (sint n)) (pipe_bytes (pp s pi)) \<and>
     user_bytes s' p addr bs \<and> bs @ pipe_bytes (pp s' pi) = pipe_bytes (pp s pi) \<and> lock_free (PipeLock pi) (mach s') \<and>
     (\<forall>q < NPROC. \<forall>j < NTHREAD. p_state (procs s q) = RUNNABLE \<longrightarrow> t_state (thr s (q, j)) = T_SLEEPING \<longrightarrow>
        t_chan (thr s (q, j)) = Some (ChPipeW pi) \<longrightarrow> t_state (thr s' (q, j)) = T_RUNNABLE)"
proof -
  let ?bs = "take (nat (sint n)) (pipe_bytes (pp s pi))" and ?root = "p_pagetable (procs s p)"
  obtain w' where w: "piperead pi addr n s = Done (of_nat (length ?bs)) (ktouch (woken (Some (ChPipeW pi)) {..<NPROC}
       ((upd_pipe pi (pipe_get ^^ length ?bs) s)\<lparr>mach := (mach s)\<lparr>pmem := w'\<rparr>\<rparr>)))" (is "_ = Done _ ?s'")
     "stored ?root addr ?bs (kmem s) w'" "pt_ok ((mach s)\<lparr>pmem := w'\<rparr>) ?root"
    using piperead_ready [OF assms] by blast
  have "pt_ok (mach ?s') ?root" using w(3) by (rule pt_ok_frame [rotated -1]) (simp_all add: touch_def upd_cpu_def)
  then have "user_bytes ?s' p addr ?bs"
    using urange_take [OF assms(8), of "length ?bs"] by (intro stored_user_bytes [OF w(2)]) (auto simp: touch_def upd_cpu_def)
  moreover have "?bs @ pipe_bytes (pp ?s' pi) = pipe_bytes (pp s pi)"
    using pq.deq_many [OF assms(5), of "length ?bs"]
    by (cases "nat (sint n) \<le> length (pipe_bytes (pp s pi))") auto
  moreover have "t_state (thr ?s' (q, j)) = T_RUNNABLE"
    if "q < NPROC" "j < NTHREAD" "p_state (procs s q) = RUNNABLE" "t_state (thr s (q, j)) = T_SLEEPING"
      "t_chan (thr s (q, j)) = Some (ChPipeW pi)" for q j
    using that by (simp add: woken_thr)
  ultimately show ?thesis using w(1) assms(3) by (intro exI [of _ ?s'] exI [of _ ?bs]) (auto simp: lock_simps)
qed

theorem piperead_delivers_witness:
  "\<exists>s' bs. piperead 0x80026000 0 8 (upd_pipe 0x80026000 (pipe_put 104) pipe_demo) = Done 1 s' \<and>
     user_bytes s' 0 0 [104] \<and> pipe_bytes (pp s' 0x80026000) = []"
proof -
  let ?s = "upd_pipe 0x80026000 (pipe_put 104) pipe_demo"
  have i: "pipe_inv (pp pipe_demo 0x80026000)" by (simp add: pipe_inv_def pipe_demo_def one_thread_def boot_kst_def
      upd_mycpu_def zero_fs_def)
  then have b: "pipe_bytes (pp ?s 0x80026000) = [104]" "pipe_inv (pp ?s 0x80026000)"
    by (simp_all add: pq.abs_enq pq.inv_enq pipe_demo_fields)
  have "runs 0 0 ?s" by (simp add: runs_def mycpu_def cpuid_def pipe_demo_fields upd_cpu_def)
  moreover have "kok ?s" "\<And>lk. lock_free lk (mach ?s)"
    by (simp_all add: pipe_demo_fields upd_cpu_def one_page_def idle_machine_def cpu_ok_def lock_free_def)
  ultimately show ?thesis
    using piperead_delivers [of 0 0 ?s "0x80026000" 0 8] b pipe_demo_memory by (auto simp: pipe_demo_fields)
qed

end
