(* ===== verification/Consoleline.thy ===== *)
theory Consoleline
  imports Console Ring
begin

text \<open>
  The buffers of the console and of the serial port as queues of bytes, the line discipline the console
  implements on its input, and the order in which the transmitter is given the bytes of user output.
\<close>

section \<open>The transmit buffer\<close>

definition tx_inv :: "uartst \<Rightarrow> bool" where
  "tx_inv u = (unat (tx_w u - tx_r u) \<le> 32)"

definition tx_bytes :: "uartst \<Rightarrow> u8 list" where
  "tx_bytes u = ring_list 32 (tx_buf u) (tx_r u) (tx_w u)"

definition tx_put :: "u8 \<Rightarrow> uartst \<Rightarrow> uartst" where
  "tx_put c u = u\<lparr>tx_buf := (tx_buf u)(unat (tx_w u mod UART_TX_BUF_SIZE) := c), tx_w := tx_w u + 1\<rparr>"

definition tx_get :: "uartst \<Rightarrow> uartst" where
  "tx_get u = u\<lparr>tx_r := tx_r u + 1\<rparr>"

definition tx_front :: "uartst \<Rightarrow> u8" where
  "tx_front u = tx_buf u (unat (tx_r u mod UART_TX_BUF_SIZE))"

lemma tx_full_iff: "tx_w u = tx_r u + UART_TX_BUF_SIZE \<longleftrightarrow> length (tx_bytes u) = 32"
proof -
  have "tx_w u = tx_r u + UART_TX_BUF_SIZE \<longleftrightarrow> tx_w u - tx_r u = 32" by (auto simp: algebra_simps)
  also have "\<dots> \<longleftrightarrow> unat (tx_w u - tx_r u) = 32"
    using word_unat_eq_iff [of "tx_w u - tx_r u" 32] by simp
  finally show ?thesis by (simp add: tx_bytes_def)
qed

lemma tx_empty_iff: "tx_w u = tx_r u \<longleftrightarrow> tx_bytes u = []"
  unfolding tx_bytes_def by (rule ring_empty)

interpretation txq: byte_fifo tx_inv tx_bytes 32 tx_put tx_get tx_front
proof
  fix u c assume i: "tx_inv u" and l: "length (tx_bytes u) < 32"
  have room: "unat (tx_w u - tx_r u) < 32" using l by (simp add: tx_bytes_def)
  show "tx_bytes (tx_put c u) = tx_bytes u @ [c]"
    using ring_put [where 'l = 64, of 32 "tx_w u" "tx_r u" "tx_buf u" c] room
    by (simp add: tx_bytes_def tx_put_def)
  show "tx_inv (tx_put c u)"
    using word_count_Suc [OF room] by (simp add: tx_inv_def tx_put_def room Suc_le_eq)
next
  fix u assume i: "tx_inv u" and "tx_bytes u \<noteq> []"
  then have ne: "tx_w u \<noteq> tx_r u" by (simp add: tx_empty_iff)
  show "tx_bytes u = tx_front u # tx_bytes (tx_get u)"
    using ring_get [OF ne, of 32 "tx_buf u"] by (simp add: tx_bytes_def tx_get_def tx_front_def)
  show "tx_inv (tx_get u)"
    using word_count_pred [OF ne] i by (simp add: tx_inv_def tx_get_def)
next
  fix u assume "tx_inv u"
  then show "length (tx_bytes u) \<le> 32" by (simp add: tx_inv_def tx_bytes_def)
qed

section \<open>The input buffer\<close>

text \<open>The bytes that wait to be read, and the line that is being edited.\<close>

definition cons_ready :: "console \<Rightarrow> u8 list" where
  "cons_ready x = ring_list 128 (cons_buf x) (cons_r x) (cons_w x)"

definition cons_line :: "console \<Rightarrow> u8 list" where
  "cons_line x = ring_list 128 (cons_buf x) (cons_w x) (cons_e x)"

definition cons_bytes :: "console \<Rightarrow> u8 list" where
  "cons_bytes x = ring_list 128 (cons_buf x) (cons_r x) (cons_e x)"

definition cons_inv :: "console \<Rightarrow> bool" where
  "cons_inv x = (unat (cons_w x - cons_r x) + unat (cons_e x - cons_w x) \<le> 128 \<and> 10 \<notin> set (cons_line x))"

lemma ring_append:
  fixes r w e :: "'l::len word"
  assumes "unat (w - r) + unat (e - w) < 2 ^ LENGTH('l)"
  shows "ring_list n d r e = ring_list n d r w @ ring_list n d w e" "unat (e - r) = unat (w - r) + unat (e - w)"
proof -
  have "e - r = of_nat (unat (w - r) + unat (e - w))" by simp
  then show u: "unat (e - r) = unat (w - r) + unat (e - w)" using assms by (simp only: unat_of_nat_small)
  have "[0..<unat (e - r)] = [0..<unat (w - r)] @ map (\<lambda>i. i + unat (w - r)) [0..<unat (e - w)]"
    unfolding u by (subst upt_add_eq_append) (simp_all add: map_add_upt add.commute)
  then show "ring_list n d r e = ring_list n d r w @ ring_list n d w e"
    by (simp add: ring_list_def comp_def add.commute add.left_commute)
qed

lemma ring_butlast:
  fixes r w :: "'l::len word"
  assumes "w \<noteq> r"
  shows "ring_list n d r (w - 1) = butlast (ring_list n d r w)"
proof -
  have "w - r \<noteq> 0" using assms by simp
  then have "unat (w - 1 - r) = unat (w - r) - 1" using unat_minus_one [of "w - r"] by (simp add: algebra_simps)
  then show ?thesis by (cases "unat (w - r)") (simp_all add: ring_list_def)
qed


section \<open>Sending\<close>

lemma upd_uart_fields [simp]:
  "uart (upd_uart f s) = f (uart s)" "mach (upd_uart f s) = mach s" "hart (upd_uart f s) = hart s"
  "fs (upd_uart f s) = fs s" "procs (upd_uart f s) = procs s" "panicked (upd_uart f s) = panicked s"
  "upd_uart f (s\<lparr>mach := m\<rparr>) = upd_uart f s\<lparr>mach := m\<rparr>"
  by (simp_all add: upd_uart_def)

text \<open>What \<open>uartstart\<close> does to the transmit buffer and the device: \<open>n\<close> bytes are sent.\<close>

definition tx_send :: "uartst \<Rightarrow> uartst" where
  "tx_send u = (tx_get u)\<lparr>u_sent := u_sent u @ [tx_front u], u_room := u_room u - 1\<rparr>"

lemma tx_send_fields:
  assumes "tx_inv u" and "tx_bytes u \<noteq> []"
  shows "tx_inv (tx_send u)" "u_sent (tx_send u) @ tx_bytes (tx_send u) = u_sent u @ tx_bytes u"
    "length (tx_bytes u) = Suc (length (tx_bytes (tx_send u)))" "u_room (tx_send u) = u_room u - 1"
proof -
  have e: "tx_bytes (tx_send u) = tx_bytes (tx_get u)" "tx_inv (tx_send u) = tx_inv (tx_get u)"
    by (simp_all add: tx_bytes_def tx_inv_def tx_send_def)
  show "tx_inv (tx_send u)" using txq.inv_deq [OF assms] by (simp only: e)
  show "u_sent (tx_send u) @ tx_bytes (tx_send u) = u_sent u @ tx_bytes u"
    "length (tx_bytes u) = Suc (length (tx_bytes (tx_send u)))"
    unfolding e using txq.abs_deq [OF assms] by (simp_all add: tx_send_def)
  show "u_room (tx_send u) = u_room u - 1" by (simp add: tx_send_def)
qed

lemma woken_uart: "woken ch P (upd_uart f s) = upd_uart f (woken ch P s)"
  by (simp add: woken_def upd_uart_def cong: if_cong)

lemma uartstart_round:
  assumes "kok s" and "\<forall>q < NPROC. lock_free (ProcLock q) (mach s)" and "tx_bytes (uart s) \<noteq> []"
  shows "uartstart_loop (Suc n) s = uartstart_loop n (upd_uart tx_send (ktouch (woken (Some ChUart) {..<NPROC} s)))"
proof -
  let ?c = "tx_front (uart s)"
  have "wakeup (Some ChUart) (upd_uart tx_get s) = Ok (ktouch (upd_uart tx_get (woken (Some ChUart) {..<NPROC} s)))"
    using wakeup_eq [of "upd_uart tx_get s" "Some ChUart"] assms(1,2) by (simp add: woken_uart)
  moreover have "write_THR ?c (ktouch (upd_uart tx_get (woken (Some ChUart) {..<NPROC} s))) =
      upd_uart tx_send (ktouch (woken (Some ChUart) {..<NPROC} s))"
    by (simp add: write_THR_def upd_uart_def tx_send_def tx_get_def tx_front_def)
  ultimately show ?thesis
    using assms(3) by (simp add: tx_empty_iff tx_front_def tx_get_def [abs_def])
qed

lemma uartstart_loop_sends:
  assumes "tx_inv (uart s)" and "kok s" and "\<forall>q < NPROC. lock_free (ProcLock q) (mach s)" and "n = u_room (uart s)"
  shows "\<exists>s'. uartstart_loop n s = Ok s' \<and> tx_inv (uart s') \<and>
     u_sent (uart s') @ tx_bytes (uart s') = u_sent (uart s) @ tx_bytes (uart s) \<and>
     (tx_bytes (uart s') = [] \<or> u_room (uart s') = 0) \<and> fs s' = fs s \<and>
     (mach s' = mach s \<or> mach s' = touch (hart s) (mach s)) \<and> hart s' = hart s"
  using assms
proof (induction n arbitrary: s)
  case 0
  then show ?case by simp
next
  case (Suc n)
  show ?case
  proof (cases "tx_bytes (uart s) = []")
    case True
    then have "uartstart_loop (Suc n) s = Ok s" by (simp add: tx_empty_iff)
    then show ?thesis using True Suc.prems(1) by auto
  next
    case False
    let ?s = "ktouch (woken (Some ChUart) {..<NPROC} s)"
    let ?s1 = "upd_uart tx_send ?s"
    have "uartstart_loop (Suc n) s = uartstart_loop n ?s1" using uartstart_round [OF Suc.prems(2,3) False] .
    moreover note f = tx_send_fields [OF Suc.prems(1) False]
    moreover have "n = u_room (uart ?s1)" using f(4) Suc.prems(4) by simp
    ultimately show ?thesis
      using Suc.IH [of ?s1] Suc.prems(2,3) by (auto simp: lock_simps)
  qed
qed

lemmas uartstart_sends = uartstart_loop_sends [OF _ _ _ refl, folded uartstart_def]

section \<open>Line editing\<close>

text \<open>
  The line discipline: the bytes ready to be read and the line being edited.  Control-U empties the line,
  backspace and delete take its last byte, a carriage return counts as a newline, a newline, control-D
  or the 128th byte make the line ready, and a byte that finds the buffer full is dropped.
\<close>

definition line_input :: "u8 \<Rightarrow> u8 list \<times> u8 list \<Rightarrow> u8 list \<times> u8 list" where
  "line_input c = (\<lambda>(ready, line).
    if c = 16 then (ready, line)
    else if c = 21 then (ready, [])
    else if c = 8 \<or> c = 127 then (ready, butlast line)
    else if c = 0 \<or> length ready + length line \<ge> 128 then (ready, line)
    else let c = (if c = 13 then 10 else c)
         in if c = 10 \<or> c = 4 \<or> length ready + length line = 127 then (ready @ line @ [c], [])
            else (ready, line @ [c]))"

definition cons_abs :: "console \<Rightarrow> u8 list \<times> u8 list" where
  "cons_abs x = (cons_ready x, cons_line x)"

definition cons_back :: "console \<Rightarrow> console" where
  "cons_back x = x\<lparr>cons_e := cons_e x - 1\<rparr>"

definition cons_put :: "u8 \<Rightarrow> console \<Rightarrow> console" where
  "cons_put c x = x\<lparr>cons_buf := (cons_buf x)(unat (cons_e x mod INPUT_BUF) := c), cons_e := cons_e x + 1\<rparr>"

definition cons_take :: "console \<Rightarrow> console" where
  "cons_take x = x\<lparr>cons_r := cons_r x + 1\<rparr>"

definition cons_commit :: "console \<Rightarrow> console" where
  "cons_commit x = x\<lparr>cons_w := cons_e x\<rparr>"

lemma cons_lengths:
  "length (cons_ready x) = unat (cons_w x - cons_r x)" "length (cons_line x) = unat (cons_e x - cons_w x)"
  by (simp_all add: cons_ready_def cons_line_def)

lemma cons_bytes_eq:
  assumes "length (cons_ready x) + length (cons_line x) \<le> 128"
  shows "cons_bytes x = cons_ready x @ cons_line x" "unat (cons_e x - cons_r x) = length (cons_ready x) + length (cons_line x)"
  using ring_append(1) [of "cons_w x" "cons_r x" "cons_e x" 128 "cons_buf x"]
    ring_append(2) [of "cons_w x" "cons_r x" "cons_e x"] assms
  by (simp_all add: cons_bytes_def cons_ready_def cons_line_def)

lemma cons_back_abs:
  assumes "cons_line x \<noteq> []"
  shows "cons_abs (cons_back x) = (cons_ready x, butlast (cons_line x))"
proof -
  have "cons_e x \<noteq> cons_w x" using assms ring_empty [of "cons_e x" "cons_w x"] by (simp add: cons_line_def)
  then show ?thesis
    by (simp add: cons_abs_def cons_back_def cons_ready_def cons_line_def ring_butlast)
qed

lemma cons_put_abs:
  assumes "length (cons_ready x) + length (cons_line x) < 128"
  shows "cons_abs (cons_put c x) = (cons_ready x, cons_line x @ [c])"
proof -
  have e: "unat (cons_e x - cons_r x) < 128" using assms cons_bytes_eq(2) [of x] by simp
  then have "cons_bytes (cons_put c x) = cons_bytes x @ [c]"
    using ring_put [where 'l = 32, of 128 "cons_e x" "cons_r x" "cons_buf x" c]
    by (simp add: cons_bytes_def cons_put_def)
  moreover have l: "cons_line (cons_put c x) = cons_line x @ [c]"
    using ring_put [where 'l = 32, of 128 "cons_e x" "cons_w x" "cons_buf x" c] assms
    by (simp add: cons_line_def cons_put_def)
  moreover have "length (cons_ready (cons_put c x)) = length (cons_ready x)"
    by (simp add: cons_lengths cons_put_def)
  moreover have "cons_bytes (cons_put c x) = cons_ready (cons_put c x) @ cons_line (cons_put c x)"
    using assms by (intro cons_bytes_eq) (simp add: l, simp add: cons_lengths cons_put_def)
  moreover have "cons_bytes x = cons_ready x @ cons_line x" using assms by (intro cons_bytes_eq) simp
  ultimately show ?thesis by (simp add: cons_abs_def)
qed

lemma cons_commit_abs:
  assumes "length (cons_ready x) + length (cons_line x) \<le> 128"
  shows "cons_abs (cons_commit x) = (cons_ready x @ cons_line x, [])"
  using cons_bytes_eq(1) [OF assms] ring_empty [of "cons_e x" "cons_e x" 128 "cons_buf x"]
  by (simp add: cons_abs_def cons_commit_def cons_ready_def cons_line_def cons_bytes_def)

text \<open>Echoing changes the port and the bookkeeping of interrupts only.\<close>

abbreviation echoed :: "uartst \<Rightarrow> kst \<Rightarrow> kst" where "echoed u s \<equiv> (ktouch s)\<lparr>uart := u\<rparr>"

lemma uartputc_sync_ok:
  assumes "kok s" and "\<not> panicked s" and "0 < u_room (uart s)"
  shows "uartputc_sync c s = Ok (write_THR c (ktouch s))"
  using assms by (simp add: uartputc_sync_def Let_def write_THR_def pop_push_off)

lemma consputc_ok:
  assumes "kok s" and "\<not> panicked s" and "3 \<le> u_room (uart s)"
  shows "\<exists>u. consputc c s = Ok (echoed u s) \<and> u_room (uart s) \<le> u_room u + 3"
  using assms
  by (auto simp: consputc_def uartputc_sync_ok write_THR_def upd_uart_def lock_simps)

lemma ring_last:
  fixes r w :: "'l::len word"
  assumes "w \<noteq> r"
  shows "last (ring_list n d r w) = d (unat ((w - 1) mod of_nat n))"
proof -
  have "w - r \<noteq> 0" using assms by simp
  then have "0 < unat (w - r)" "unat (w - r) - 1 = unat (w - r - 1)"
    by (simp_all add: unat_gt_0 unat_minus_one)
  then have "r + of_nat (unat (w - r) - 1) = w - 1" by simp
  then show ?thesis using \<open>0 < unat (w - r)\<close> by (simp add: ring_list_def last_map last_upt)
qed

lemma upd_cons_fields [simp]:
  "cn (upd_cons f s) = f (cn s)" "mach (upd_cons f s) = mach s" "hart (upd_cons f s) = hart s"
  "uart (upd_cons f s) = uart s" "panicked (upd_cons f s) = panicked s" "procs (upd_cons f s) = procs s"
  by (simp_all add: upd_cons_def upd_fs_def)

lemma kill_line_clears:
  assumes "kok s" and "\<not> panicked s" and "3 * k \<le> u_room (uart s)" and "k = length (cons_line (cn s))"
    and "10 \<notin> set (cons_line (cn s))"
  shows "\<exists>s'. kill_line k s = Ok s' \<and> cons_abs (cn s') = (cons_ready (cn s), []) \<and>
    (mach s' = mach s \<or> mach s' = touch (hart s) (mach s)) \<and> hart s' = hart s"
  using assms
proof (induction k arbitrary: s)
  case 0
  then show ?case by (auto simp: cons_abs_def)
next
  case (Suc k)
  then have line: "cons_line (cn s) \<noteq> []" by auto
  then have ne: "cons_e (cn s) \<noteq> cons_w (cn s)"
    using ring_empty [of "cons_e (cn s)" "cons_w (cn s)"] by (simp add: cons_line_def)
  have "last (cons_line (cn s)) \<noteq> 10" using line Suc.prems(5) by (metis last_in_set)
  then have l: "cons_buf (cn s) (unat ((cons_e (cn s) - 1) mod INPUT_BUF)) \<noteq> 10"
    using ring_last [OF ne, of 128 "cons_buf (cn s)"] by (simp add: cons_line_def)
  let ?s1 = "upd_cons cons_back s"
  obtain u where u: "consputc BACKSPACE ?s1 = Ok (echoed u ?s1)" "u_room (uart s) \<le> u_room u + 3"
    using consputc_ok [of ?s1 BACKSPACE] Suc.prems(1-3) by auto
  have "kill_line (Suc k) s = kill_line k (echoed u ?s1)"
    using ne l u(1) by (simp add: cons_back_def [abs_def])
  moreover have b: "cons_ready (cn ?s1) = cons_ready (cn s)" "cons_line (cn ?s1) = butlast (cons_line (cn s))"
    using cons_back_abs [OF line] by (simp_all add: cons_abs_def)
  moreover have "k = length (cons_line (cn ?s1))" "10 \<notin> set (cons_line (cn ?s1))"
    unfolding b using Suc.prems(4,5) by (simp, auto dest: in_set_butlastD)
  moreover have "kok (echoed u ?s1)" "\<not> panicked (echoed u ?s1)" "3 * k \<le> u_room (uart (echoed u ?s1))"
    using Suc.prems(1-3) u(2) by (simp_all add: lock_simps)
  ultimately obtain s' where "kill_line (Suc k) s = Ok s'" "cons_abs (cn s') = (cons_ready (cn s), [])"
      "mach s' = touch (hart s) (mach s)" "hart s' = hart s"
    using Suc.IH [of "echoed u ?s1"] by (auto simp add: lock_simps)
  then show ?case by blast
qed

lemma cons_room:
  "cons_inv x \<Longrightarrow> cons_e x - cons_r x < INPUT_BUF \<longleftrightarrow> length (cons_ready x) + length (cons_line x) < 128"
  using cons_bytes_eq(2) [of x] by (simp add: cons_inv_def cons_lengths word_less_nat_alt)

lemma cons_full:
  assumes "length (cons_ready x) + length (cons_line x) \<le> 128"
  shows "cons_e x = cons_r x + INPUT_BUF \<longleftrightarrow> length (cons_ready x) + length (cons_line x) = 128"
proof -
  have "cons_e x = cons_r x + INPUT_BUF \<longleftrightarrow> cons_e x - cons_r x = 128" by (auto simp: algebra_simps)
  also have "\<dots> \<longleftrightarrow> unat (cons_e x - cons_r x) = 128"
    using word_unat_eq_iff [of "cons_e x - cons_r x" 128] by simp
  finally show ?thesis using cons_bytes_eq(2) [OF assms] by simp
qed

lemma console_input_line:
  assumes "kok s" and "\<not> panicked s" and "3 \<le> u_room (uart s)" and "cons_inv (cn s)"
    and "\<forall>q < NPROC. lock_free (ProcLock q) (mach s)" and "c \<notin> {8, 16, 21, 127}"
  shows "\<exists>s'. console_input c s = Ok s' \<and> cons_abs (cn s') = line_input c (cons_abs (cn s)) \<and>
    (mach s' = mach s \<or> mach s' = touch (hart s) (mach s)) \<and> hart s' = hart s"
proof (cases "c = 0 \<or> length (cons_ready (cn s)) + length (cons_line (cn s)) \<ge> 128")
  case True
  have "console_input c s = Ok s" using True cons_room [OF assms(4)] by (auto simp: console_input_def)
  then show ?thesis using True assms(6) by (auto simp: line_input_def cons_abs_def)
next
  case False
  define d where "d = (if c = 13 then 10 else c)"
  obtain u where u: "consputc (ucast d) s = Ok (echoed u s)" using consputc_ok [OF assms(1-3)] by blast
  define s1 where "s1 = upd_cons (cons_put d) (echoed u s)"
  have abs1: "cons_ready (cn s1) = cons_ready (cn s)" "cons_line (cn s1) = cons_line (cn s) @ [d]"
    using cons_put_abs [of "cn s" d] False by (simp_all add: s1_def cons_abs_def)
  have full: "cons_e (cn s1) = cons_r (cn s1) + INPUT_BUF \<longleftrightarrow> length (cons_ready (cn s)) + length (cons_line (cn s)) = 127"
    using cons_full [of "cn s1"] abs1 False by auto
  have in_eq: "console_input c s =
      (if d = 10 \<or> d = 4 \<or> length (cons_ready (cn s)) + length (cons_line (cn s)) = 127
       then wakeup (Some ChCons) (upd_cons cons_commit s1) else Ok s1)"
    using u False cons_room [OF assms(4)] full
    by (simp add: console_input_def d_def [symmetric] Let_def s1_def cons_put_def [abs_def] cons_commit_def [abs_def])
  have wake: "wakeup (Some ChCons) (upd_cons cons_commit s1) =
      Ok (ktouch (woken (Some ChCons) {..<NPROC} (upd_cons cons_commit s1)))"
    using assms(1,5) by (intro wakeup_eq) (simp_all add: s1_def lock_simps)
  have com: "cons_abs (cn (upd_cons cons_commit s1)) = (cons_ready (cn s) @ cons_line (cn s) @ [d], [])"
    using cons_commit_abs [of "cn s1"] abs1 False by simp
  show ?thesis
    using False assms(6) in_eq wake com abs1
    by (auto simp: line_input_def cons_abs_def d_def [symmetric] Let_def s1_def lock_simps)
qed

lemma cons_inv_abs:
  "cons_inv x \<longleftrightarrow> length (fst (cons_abs x)) + length (snd (cons_abs x)) \<le> 128 \<and> 10 \<notin> set (snd (cons_abs x))"
  by (simp add: cons_inv_def cons_abs_def cons_lengths)

lemma line_input_inv:
  assumes "length (fst x) + length (snd x) \<le> 128 \<and> 10 \<notin> set (snd x)"
  shows "length (fst (line_input c x)) + length (snd (line_input c x)) \<le> 128 \<and> 10 \<notin> set (snd (line_input c x))"
  using assms by (cases x) (auto simp: line_input_def Let_def dest: in_set_butlastD)

lemma backspace_line:
  assumes "kok s" and "\<not> panicked s" and "3 \<le> u_room (uart s)"
  shows "\<exists>s'. (if cons_e (cn s) \<noteq> cons_w (cn s) then consputc BACKSPACE (upd_cons (\<lambda>x. x\<lparr>cons_e := cons_e x - 1\<rparr>) s)
      else Ok s) = Ok s' \<and> cons_abs (cn s') = (cons_ready (cn s), butlast (cons_line (cn s))) \<and>
    (mach s' = mach s \<or> mach s' = touch (hart s) (mach s)) \<and> hart s' = hart s"
proof (cases "cons_line (cn s) = []")
  case True
  then have "cons_e (cn s) = cons_w (cn s)" using ring_empty by (metis cons_line_def)
  then show ?thesis using True by (simp add: cons_abs_def)
next
  case False
  then have "cons_e (cn s) \<noteq> cons_w (cn s)"
    using ring_empty [of "cons_e (cn s)" "cons_w (cn s)"] by (simp add: cons_line_def)
  moreover obtain u where "consputc BACKSPACE (upd_cons cons_back s) = Ok (echoed u (upd_cons cons_back s))"
    using consputc_ok [of "upd_cons cons_back s" BACKSPACE] assms by auto
  ultimately show ?thesis
    using cons_back_abs [OF False] by (simp add: cons_back_def [abs_def, symmetric])
qed

definition console_edit :: "u8 \<Rightarrow> kst \<Rightarrow> kst res" where
  "console_edit c s =
    (if c = 21 then kill_line (unat (cons_e (cn s) - cons_w (cn s))) s
     else if c = 8 \<or> c = 0x7f then
       (if cons_e (cn s) \<noteq> cons_w (cn s) then consputc BACKSPACE (upd_cons (\<lambda>x. x\<lparr>cons_e := cons_e x - 1\<rparr>) s)
        else Ok s)
     else console_input c s)"

lemma console_edit_line:
  assumes "kok s" and "\<not> panicked s" and "384 \<le> u_room (uart s)" and "cons_inv (cn s)"
    and "\<forall>q < NPROC. lock_free (ProcLock q) (mach s)" and "c \<noteq> 16"
  shows "\<exists>s'. console_edit c s = Ok s' \<and> cons_abs (cn s') = line_input c (cons_abs (cn s)) \<and>
    (mach s' = mach s \<or> mach s' = touch (hart s) (mach s)) \<and> hart s' = hart s"
proof -
  consider "c = 21" | "c = 8 \<or> c = 127" | "c \<notin> {8, 16, 21, 127}" using assms(6) by auto
  then show ?thesis
  proof cases
    case 1
    have "3 * length (cons_line (cn s)) \<le> u_room (uart s)" "10 \<notin> set (cons_line (cn s))"
      using assms(3,4) by (simp_all add: cons_inv_def cons_lengths)
    then show ?thesis
      using kill_line_clears [OF assms(1,2) _ refl] 1
      by (simp add: console_edit_def line_input_def cons_abs_def cons_lengths)
  next
    case 2
    then show ?thesis
      using backspace_line [OF assms(1,2)] assms(3)
      by (auto simp: console_edit_def line_input_def cons_abs_def)
  next
    case 3
    then have "console_edit c s = console_input c s" by (auto simp: console_edit_def)
    then show ?thesis using console_input_line [OF assms(1,2) _ assms(4,5) 3] assms(3) by simp
  qed
qed

section \<open>Properties\<close>

text \<open>An idle machine whose port has room for 400 bytes.\<close>

definition uart_demo :: kst where
  "uart_demo = upd_uart (u_room_update (\<lambda>_. 400)) (one_thread idle_machine)"

lemma uart_demo_ok:
  "kok uart_demo" "\<not> panicked uart_demo" "lock_free lk (mach uart_demo)" "u_room (uart uart_demo) = 400"
  "tx_inv (uart uart_demo)" "tx_bytes (uart uart_demo) = []" "u_sent (uart uart_demo) = []"
  "cons_abs (cn uart_demo) = ([], [])"
  by (simp_all add: uart_demo_def one_thread_def boot_kst_def upd_mycpu_def upd_proc_def upd_uart_def upd_cpu_def
      idle_machine_def cpu_ok_def lock_free_def tx_inv_def tx_bytes_def ring_list_def zero_fs_def cons_abs_def
      cons_ready_def cons_line_def)

text \<open>
  C14. Bytes written to the console reach the serial port in order.  While the transmit buffer has
  room, uartputc returns without sleeping; the bytes given to the port, followed by the bytes in the
  buffer, are then those from before followed by the new byte; and the driver has stopped only
  because the buffer is empty or the port accepts no more.
\<close>

theorem uartputc_in_order:
  assumes "tx_inv (uart s)" and "length (tx_bytes (uart s)) < 32" and "kok s" and "\<not> panicked s"
    and "lock_free UartTxLock (mach s)" and "\<forall>q < NPROC. lock_free (ProcLock q) (mach s)"
  shows "\<exists>s'. uartputc c s = Done () s' \<and> tx_inv (uart s') \<and>
     u_sent (uart s') @ tx_bytes (uart s') = u_sent (uart s) @ tx_bytes (uart s) @ [c] \<and>
     (tx_bytes (uart s') = [] \<or> u_room (uart s') = 0) \<and> lock_free UartTxLock (mach s')"
proof -
  let ?s = "klocked UartTxLock s"
  let ?s1 = "upd_uart (tx_put c) ?s"
  have "tx_inv (uart ?s1)" "tx_bytes (uart ?s1) = tx_bytes (uart s) @ [c]" "u_sent (uart ?s1) = u_sent (uart s)"
    using txq.inv_enq [OF assms(1,2)] txq.abs_enq [OF assms(1,2)] by (simp_all add: tx_put_def)
  moreover from this obtain s' where s': "uartstart ?s1 = Ok s'" "tx_inv (uart s')"
      "u_sent (uart s') @ tx_bytes (uart s') = u_sent (uart s) @ tx_bytes (uart s) @ [c]"
      "tx_bytes (uart s') = [] \<or> u_room (uart s') = 0" "mach s' = locked_by (hart s) UartTxLock (mach s)" "hart s' = hart s"
    using uartstart_sends [of ?s1] assms(6) by (auto simp: lock_simps)
  have "krelease UartTxLock s' = Ok (s'\<lparr>mach := touch (hart s) (mach s)\<rparr>)"
    using assms(3,5) s'(5,6) by (simp add: lock_simps)
  moreover have "\<not> tx_w (uart s) = tx_r (uart s) + UART_TX_BUF_SIZE" using assms(2) by (simp only: tx_full_iff)
  ultimately have "uartputc_iter c ?s = Done (Some ()) (s'\<lparr>mach := touch (hart s) (mach s)\<rparr>)"
    using s'(1) by (simp add: uartputc_iter_def tx_put_def [abs_def])
  then have "uartputc c s = Done () (s'\<lparr>mach := touch (hart s) (mach s)\<rparr>)"
    using assms(4,5) by (simp add: uartputc_def lock_simps rloop_simps)
  then show ?thesis using s' assms(5) by (auto simp: lock_simps)
qed

theorem uartputc_in_order_witness:
  "\<exists>s'. uartputc 104 uart_demo = Done () s' \<and> u_sent (uart s') @ tx_bytes (uart s') = [104]"
  using uartputc_in_order [OF uart_demo_ok(5) _ uart_demo_ok(1,2,3), of 104] by (auto simp: uart_demo_ok)



end
