(* ===== verification/Rely.thy ===== *)
theory Rely
  imports Sched
begin

text \<open>
  Reasoning about code that gives up the CPU.  Between the moment a thread calls swtch and the moment
  it is resumed the other threads run: \<open>upholds R P r\<close> says that whatever they do, as long as it is
  within \<open>R\<close>, the run \<open>r\<close> returns, if it returns, with a result and a state that satisfy \<open>P\<close>.  The
  rules follow the ways code is composed.
\<close>

section \<open>Runs under interference\<close>

coinductive upholds :: "('s \<Rightarrow> 's \<Rightarrow> bool) \<Rightarrow> ('a \<Rightarrow> 's \<Rightarrow> bool) \<Rightarrow> ('s, 'a) run \<Rightarrow> bool"
  for R P where
  upholds_Done: "P a s \<Longrightarrow> upholds R P (Done a s)"
| upholds_Fail: "upholds R P (Fail e)"
| upholds_Swtch: "(\<And>s'. R s s' \<Longrightarrow> upholds R P (k s')) \<Longrightarrow> upholds R P (Swtch s k)"

inductive_simps upholds_simps [simp]:
  "upholds R P (Done a s)" "upholds R P (Fail e)" "upholds R P (Swtch s k)"

lemma upholds_mono:
  assumes "upholds R Q r" and "\<And>a s. Q a s \<Longrightarrow> P a s"
  shows "upholds R P r"
  using assms(1)
proof (coinduction arbitrary: r rule: upholds.coinduct)
  case upholds
  then show ?case using assms(2) by (cases r) auto
qed

lemma upholds_True [simp]: "upholds R (\<lambda>_ _. True) r"
proof (coinduction arbitrary: r rule: upholds.coinduct)
  case upholds
  show ?case by (cases r) auto
qed

lemma upholds_bind:
  assumes "upholds R Q r" and "\<And>a s. Q a s \<Longrightarrow> upholds R P (f a s)"
  shows "upholds R P (rbind r f)"
  using assms(1)
proof (coinduction arbitrary: r rule: upholds.coinduct)
  case upholds
  show ?case
  proof (cases r)
    case (Done a s)
    then have "upholds R P (f a s)" using upholds assms(2) by simp
    then show ?thesis using Done by (cases "f a s") auto
  next
    case (Swtch s k)
    then show ?thesis using upholds by auto
  qed simp
qed

text \<open>What an iteration of a loop leaves: the invariant, or the result.\<close>

fun loop_post :: "('s \<Rightarrow> bool) \<Rightarrow> ('a \<Rightarrow> 's \<Rightarrow> bool) \<Rightarrow> 'a option \<Rightarrow> 's \<Rightarrow> bool" where
  "loop_post I P None s = I s"
| "loop_post I P (Some a) s = P a s"

lemma upholds_while:
  assumes "upholds R (loop_post I P) r" and "\<And>s. I s \<Longrightarrow> upholds R (loop_post I P) (b s)"
  shows "upholds R P (rwhile b r)"
  using assms(1)
proof (coinduction arbitrary: r rule: upholds.coinduct)
  case upholds
  show ?case
  proof (cases r)
    case (Done o1 s)
    show ?thesis
    proof (cases o1)
      case None
      then have "upholds R (loop_post I P) (b s)" using upholds Done assms(2) by simp
      then show ?thesis using Done None
      proof (cases "b s")
        case (Done o2 s')
        then show ?thesis using \<open>upholds R (loop_post I P) (b s)\<close> \<open>r = Done o1 s\<close> None
          by (cases o2) (auto simp: rloop_simps)
      qed (auto simp: rloop_simps)
    qed (use Done upholds in auto)
  next
    case (Swtch s k)
    then show ?thesis using upholds by auto
  qed simp
qed

lemma upholds_loop:
  assumes "I s" and "\<And>s. I s \<Longrightarrow> upholds R (loop_post I P) (b s)"
  shows "upholds R P (rloop b s)"
  unfolding rloop_def using assms by (intro upholds_while [where I = I]) auto

lemma upholds_for:
  assumes "I s" and "\<And>x s. x \<in> set xs \<Longrightarrow> I s \<Longrightarrow> upholds R (\<lambda>_. I) (f x s)"
  shows "upholds R (\<lambda>_. I) (rfor f xs s)"
  using assms by (induction xs arbitrary: s) (auto intro: upholds_bind)

lemma upholds_deref: "(\<And>a. x = Some a \<Longrightarrow> upholds R P (f a)) \<Longrightarrow> upholds R P (rderef x f)"
  by (cases x) auto

lemma upholds_lift: "(\<And>a s. r = Ok (a, s) \<Longrightarrow> P a s) \<Longrightarrow> upholds R P (lift r)"
  by (cases r) auto

lemma upholds_lift0: "(\<And>s. r = Ok s \<Longrightarrow> P () s) \<Longrightarrow> upholds R P (lift0 r)"
  by (cases r) auto

text \<open>Sequences that begin with a call that does not give up the CPU.\<close>

lemma upholds_bind_lift: "(\<And>a s. r = Ok (a, s) \<Longrightarrow> upholds R P (f a s)) \<Longrightarrow> upholds R P (rbind (lift r) f)"
  by (cases r) auto

lemma upholds_bind_lift0: "(\<And>s. r = Ok s \<Longrightarrow> upholds R P (f () s)) \<Longrightarrow> upholds R P (rbind (lift0 r) f)"
  by (cases r) auto

lemma upholds_if:
  "(c \<Longrightarrow> upholds R P x) \<Longrightarrow> (\<not> c \<Longrightarrow> upholds R P y) \<Longrightarrow> upholds R P (if c then x else y)"
  by simp

lemma upholds_bind_if:
  "(c \<Longrightarrow> upholds R P (rbind x f)) \<Longrightarrow> (\<not> c \<Longrightarrow> upholds R P (rbind y f)) \<Longrightarrow> upholds R P (rbind (if c then x else y) f)"
  by simp

lemmas upholds_steps = upholds_bind_lift upholds_bind_lift0 upholds_deref upholds_if upholds_bind_if

text \<open>What a run returns in every schedule is what the code after it may rely on.\<close>

lemma rbind_upholds_cong:
  assumes "upholds (\<lambda>_ _. True) (\<lambda>a s. f a s = g a s) r"
  shows "rbind r f = rbind r g"
  using assms
proof (coinduction arbitrary: r rule: run.coinduct_strong)
  case Eq_run
  then show ?case by (cases r) (auto simp: rel_fun_def)
qed

text \<open>The results a run can come to, with interference within \<open>R\<close>.\<close>

inductive returns :: "('s \<Rightarrow> 's \<Rightarrow> bool) \<Rightarrow> ('s, 'a) run \<Rightarrow> 'a \<Rightarrow> 's \<Rightarrow> bool" for R where
  returns_Done: "returns R (Done a s) a s"
| returns_Swtch: "R s s1 \<Longrightarrow> returns R (k s1) a s' \<Longrightarrow> returns R (Swtch s k) a s'"

lemma upholds_returns: "returns R r a s' \<Longrightarrow> upholds R P r \<Longrightarrow> P a s'"
  by (induction rule: returns.induct) simp_all

section \<open>Calls that return\<close>

lemma deref_eq_Ok: "deref x f = Ok y \<longleftrightarrow> (\<exists>a. x = Some a \<and> f a = Ok y)"
  by (cases x) auto

lemmas ok_simps = kbind_eq_Ok deref_eq_Ok Let_def

lemma rbind_eq_Done: "rbind r f = Done b s' \<longleftrightarrow> (\<exists>a s. r = Done a s \<and> f a s = Done b s')"
  by (cases r) auto

lemma rderef_eq_Done: "rderef x f = Done b s' \<longleftrightarrow> (\<exists>a. x = Some a \<and> f a = Done b s')"
  by (cases x) auto

lemmas done_simps = rbind_eq_Done rderef_eq_Done Let_def

section \<open>The part of the state the scheduling code does not touch\<close>

lemma mcall_keeps: "mcall f s = Ok s' \<Longrightarrow> fs s' = fs s \<and> procs s' = procs s"
  by (auto simp: mcall_def kbind_eq_Ok)

lemma myproc_keeps: "myproc s = Ok (p, s') \<Longrightarrow> fs s' = fs s \<and> procs s' = procs s"
  by (auto simp: myproc_def Let_def kbind_eq_Ok dest!: mcall_keeps)

lemma mythread_keeps: "mythread s = Ok (t, s') \<Longrightarrow> fs s' = fs s \<and> procs s' = procs s"
  by (auto simp: mythread_def Let_def kbind_eq_Ok dest!: mcall_keeps)

text \<open>
  \<open>g\<close> is any view of the file-system state: \<open>sched\<close>, \<open>yield\<close>, \<open>sleep\<close> and \<open>wakeup\<close> leave it as it
  is, and so does the interference that is allowed.
\<close>

abbreviation fsame :: "(fsys \<Rightarrow> 'v) \<Rightarrow> kst \<Rightarrow> kst \<Rightarrow> bool" where
  "fsame g s s' \<equiv> g (fs s') = g (fs s)"

lemma sched_fsame: "upholds (fsame g) (\<lambda>_ s'. g (fs s') = g (fs s)) (sched s)"
  unfolding sched_def
  by (intro upholds_steps) (auto simp: Let_def upd_mycpu_def dest!: myproc_keeps mythread_keeps)

lemma yield_fsame: "upholds (fsame g) (\<lambda>_ s'. g (fs s') = g (fs s)) (yield s)"
  unfolding yield_def
  apply (intro upholds_steps upholds_bind [OF sched_fsame])
  apply (rule upholds_lift0)
  apply (auto dest!: myproc_keeps mythread_keeps mcall_keeps)
  done

lemma sleep_fsame: "upholds (fsame g) (\<lambda>_ s'. g (fs s') = g (fs s)) (sleep ch lk s)"
  unfolding sleep_def
  apply (intro upholds_steps upholds_bind [OF sched_fsame] upholds_lift0)
  apply (auto dest!: myproc_keeps mythread_keeps mcall_keeps)
  done

lemma kfor_keeps:
  "(\<And>x s s'. f x s = Ok s' \<Longrightarrow> fs s' = fs s) \<Longrightarrow> kfor f xs s = Ok s' \<Longrightarrow> fs s' = fs s"
  by (induction xs arbitrary: s) (auto simp: kbind_eq_Ok)

lemma wakeup_keeps: "wakeup ch s = Ok s' \<Longrightarrow> fs s' = fs s"
  unfolding wakeup_def
  by (erule kfor_keeps [rotated]) (auto simp: wakeup_proc_def kbind_eq_Ok split: if_splits dest!: mcall_keeps)

end
