(* ===== verification/Sigsafe.thy ===== *)
theory Sigsafe
  imports Trap Rely
begin

text \<open>
  What holds of the signal state of processes: SIGKILL and SIGSTOP are never blocked and never have a
  handler, whatever system calls are made, so that kill(pid, SIGKILL) always reaches its target; and
  the trapframe that a user handler interrupts is the one sigret restores.
\<close>

unbundle bit_operations_syntax

section \<open>The signal fields of a process\<close>

definition unblockable :: u32 where
  "unblockable = sig_bit SIGKILL OR sig_bit SIGSTOP"

definition sig_ok :: "proc \<Rightarrow> bool" where
  "sig_ok q \<longleftrightarrow> p_mask q AND unblockable = 0 \<and> p_mask_backup q AND unblockable = 0 \<and>
    p_handlers q SIGKILL = SIG_DFL \<and> p_handlers q SIGSTOP = SIG_DFL \<and>
    (\<forall>n < 32. p_handlers q n \<noteq> SIG_DFL \<longrightarrow> p_masks q n AND unblockable = 0)"

definition sigs :: "kst \<Rightarrow> nat \<Rightarrow> u32 \<times> u32 \<times> (nat \<Rightarrow> u64) \<times> (nat \<Rightarrow> i32)" where
  "sigs s p = (let q = procs s p in (p_mask q, p_mask_backup q, p_handlers q, p_masks q))"

definition sig_all :: "kst \<Rightarrow> bool" where
  "sig_all s \<longleftrightarrow> (\<forall>p. sig_ok (procs s p))"

lemma sig_ok_cong: "sigs s' p = sigs s p \<Longrightarrow> sig_ok (procs s' p) = sig_ok (procs s p)"
  by (simp add: sigs_def sig_ok_def Let_def)

lemma sig_all_sigs: "sigs s' = sigs s \<Longrightarrow> sig_all s \<Longrightarrow> sig_all s'"
  unfolding sig_all_def using sig_ok_cong [of s' _ s] by metis

lemma sig_all_upd: "sig_all s \<Longrightarrow> sig_ok (f (procs s p)) \<Longrightarrow> sig_all (upd_proc p f s)"
  by (simp add: sig_all_def)

lemma sig_ok_fields [simp]:
  "sig_ok (q\<lparr>p_pending := a\<rparr>) = sig_ok q" "sig_ok (q\<lparr>p_killed := b\<rparr>) = sig_ok q"
  "sig_ok (q\<lparr>p_threads := c\<rparr>) = sig_ok q" "sig_ok (q\<lparr>p_counter := d\<rparr>) = sig_ok q"
  "sig_ok (q\<lparr>p_stopped := e\<rparr>) = sig_ok q" "sig_ok (q\<lparr>p_handling := g\<rparr>) = sig_ok q"
  "sig_ok (q\<lparr>p_sz := h\<rparr>) = sig_ok q" "sig_ok (q\<lparr>p_ofile := i\<rparr>) = sig_ok q"
  "sig_ok (q\<lparr>p_cwd := j\<rparr>) = sig_ok q" "sig_ok (q\<lparr>p_name := k\<rparr>) = sig_ok q"
  "sig_ok (q\<lparr>p_parent := l\<rparr>) = sig_ok q" "sig_ok (q\<lparr>p_state := m\<rparr>) = sig_ok q"
  "sig_ok (q\<lparr>p_pid := n\<rparr>) = sig_ok q" "sig_ok (q\<lparr>p_pagetable := r\<rparr>) = sig_ok q"
  "sig_ok (q\<lparr>p_xstate := t\<rparr>) = sig_ok q"
  by (simp_all add: sig_ok_def)

lemma sig_all_frame [simp]:
  "sig_all (s\<lparr>mach := m\<rparr>) = sig_all s" "sig_all (upd_thr t f s) = sig_all s" "sig_all (upd_mem g s) = sig_all s"
  "sig_all (upd_fs h s) = sig_all s" "sig_all (tf_set t off v s) = sig_all s" "sig_all (s\<lparr>nextpid := a\<rparr>) = sig_all s"
  "sig_all (s\<lparr>nexttid := b\<rparr>) = sig_all s"
  by (auto simp: sig_all_def procs_upd_thr tf_set_def)

lemma mcall_sig: "mcall f s = Ok s' \<Longrightarrow> sig_all s \<Longrightarrow> sig_all s'"
  by (auto simp: mcall_def kbind_eq_Ok)

lemma mget_sig: "mget f s = Ok (a, s') \<Longrightarrow> sig_all s \<Longrightarrow> sig_all s'"
  by (auto simp: mget_def kbind_eq_Ok)

lemma myproc_sig: "myproc s = Ok (a, s') \<Longrightarrow> sig_all s \<Longrightarrow> sig_all s'"
  by (auto simp: myproc_def kbind_eq_Ok Let_def dest: mcall_sig)

lemma mythread_sig: "mythread s = Ok (a, s') \<Longrightarrow> sig_all s \<Longrightarrow> sig_all s'"
  by (auto simp: mythread_def kbind_eq_Ok Let_def dest: mcall_sig)

lemmas call_sig = mcall_sig mget_sig myproc_sig mythread_sig

section \<open>Each operation keeps the invariant\<close>

lemma sig_bits [simp]: "sig_bit SIGKILL = 0x200" "sig_bit SIGSTOP = 0x20000" "unblockable = 0x20200"
  by (simp_all add: sig_bit_def unblockable_def)

lemma check_valid_mask_iff: "check_valid_mask m \<noteq> - 1 \<longleftrightarrow> m AND unblockable = 0"
proof -
  have "m AND 0x200 OR m AND 0x20000 = m AND 0x20200"
    by (simp add: bit.conj_disj_distrib [symmetric])
  then show ?thesis by (simp add: check_valid_mask_def)
qed

lemma kill_signal_ok:
  assumes "sig_ok q" and "n < 32"
  shows "sig_ok (kill_signal n q)"
proof -
  have h: "sig_ok (handle_SIGKILL n q)" using assms(1) by (simp add: handle_SIGKILL_def Let_def split: option.split)
  have m: "sig_ok (q'\<lparr>p_mask := w\<rparr>)" "sig_ok (q'\<lparr>p_mask_backup := w\<rparr>)"
    if "sig_ok q'" "w AND unblockable = 0" for q' w
    using that by (simp_all add: sig_ok_def)
  have "p_masks q n AND unblockable = 0" if "p_handlers q n = 17"
    using assms that by (auto simp: sig_ok_def)
  moreover have "p_mask q AND unblockable = 0" "p_mask_backup q AND unblockable = 0"
    using assms(1) by (simp_all add: sig_ok_def)
  ultimately show ?thesis
    using assms(1) h unfolding kill_signal_def Let_def
    by (auto simp: m simp del: sig_bits(3))
qed

lemma kill_scan_sig:
  "kill_scan pid n ps s = Ok (r, s') \<Longrightarrow> n < 32 \<Longrightarrow> sig_all s \<Longrightarrow> sig_all s'"
proof (induction ps arbitrary: s)
  case (Cons p ps)
  show ?case
    using Cons.prems Cons.IH
    by (auto simp: ok_simps sig_all_upd kill_signal_ok split: if_splits dest!: mcall_sig)
      (auto simp: sig_all_def kill_signal_ok)
qed simp

lemma kill_sig:
  assumes "kill pid signum s = Ok (r, s')" and "sig_all s"
  shows "sig_all s'"
proof (cases "sint signum < 0 \<or> 31 < sint signum \<or> pid = 0")
  case False
  then have "unat signum < 32" using nat_sint_unat [of signum] by linarith
  then show ?thesis using assms False by (auto simp: kill_def dest: kill_scan_sig)
qed (use assms in \<open>auto simp: kill_def\<close>)

lemma sigprocmask_sig:
  assumes "sigprocmask m s = Ok (r, s')" and "sig_all s"
  shows "sig_all s'"
proof -
  have "sig_ok (q\<lparr>p_mask := m\<rparr>)" if "sig_ok q" "check_valid_mask m \<noteq> - 1" for q
    using that unfolding check_valid_mask_iff by (simp add: sig_ok_def)
  then show ?thesis
    using assms by (auto simp: sigprocmask_def ok_simps sig_all_def split: if_splits dest!: call_sig)
qed

lemma sigaction_old_sig: "sigaction_old n a p s = Ok s' \<Longrightarrow> sig_all s \<Longrightarrow> sig_all s'"
  by (auto simp: sigaction_old_def ok_simps dest!: call_sig)

lemma set_handler_ok:
  assumes "sig_ok q" and "n \<noteq> SIGKILL" and "n \<noteq> SIGSTOP" and "check_valid_mask m \<noteq> - 1"
  shows "sig_ok (q\<lparr>p_handlers := (p_handlers q)(n := h), p_masks := (p_masks q)(n := m)\<rparr>)"
  using assms unfolding check_valid_mask_iff by (auto simp: sig_ok_def)

lemma sigaction_sig:
  assumes "sigaction junk signum act oldact s = Ok (r, s')" and "sig_all s"
  shows "sig_all s'"
proof (cases "sint signum < 0 \<or> 31 < sint signum \<or> signum = of_nat SIGKILL \<or> signum = of_nat SIGSTOP")
  case False
  then have n: "unat signum \<noteq> SIGKILL" "unat signum \<noteq> SIGSTOP"
    by (auto simp: word_unat_eq_iff)
  obtain p s1 s2 s3 where s: "myproc s = Ok (Some p, s1)" "kacquire (ProcLock p) s1 = Ok s2"
      "(if oldact \<noteq> 0 then sigaction_old (unat signum) oldact p s2 else Ok s2) = Ok s3"
    and rest: "(if act \<noteq> 0 then
            kbind (copyin (hart s3) (p_pagetable (procs s3 p)) act 16 (mach s3)) (\<lambda>(_, bs).
            let bs = bs @ drop (length bs) junk; mask = le_word (take 4 (drop 8 bs))
            in if check_valid_mask mask = - 1 then Ok (- 1, s3)
               else kbind (krelease (ProcLock p) (upd_proc p (\<lambda>q. q\<lparr>
                        p_handlers := (p_handlers q)(unat signum := le_word (take 8 bs)),
                        p_masks := (p_masks q)(unat signum := mask)\<rparr>) s3)) (\<lambda>s. Ok (0, s)))
          else kbind (krelease (ProcLock p) s3) (\<lambda>s. Ok (0, s))) = Ok (r, s')"
    using assms(1) False unfolding sigaction_def by (auto simp: ok_simps)
  have "sig_all s3" using s assms(2) by (auto split: if_splits dest!: call_sig sigaction_old_sig)
  then show ?thesis
    using rest n by (auto simp: ok_simps split: if_splits intro!: sig_all_upd set_handler_ok dest!: call_sig)
      (simp add: sig_all_def)
qed (use assms in \<open>auto simp: sigaction_def\<close>)

lemma reset_handlers_ok: "sig_ok q \<Longrightarrow> sig_ok (reset_handlers q)"
  by (auto simp: sig_ok_def reset_handlers_def)

lemma user_signal_handlng_sig: "user_signal_handlng p n s = Ok s' \<Longrightarrow> sig_all s \<Longrightarrow> sig_all s'"
  by (auto simp: user_signal_handlng_def ok_simps dest!: call_sig)

text \<open>A process that exits does not come back.\<close>

lemma kexit_not_Done: "kexit status s \<noteq> Done () s'"
  by (simp add: kexit_def done_simps)

lemma kthread_exit_not_Done: "kthread_exit status s \<noteq> Done () s'"
  by (auto simp: kthread_exit_def done_simps kexit_not_Done split: if_splits)

lemma deliver_sig:
  assumes "deliver p n s = Done () s'" and "sig_all s" and "n < 32"
  shows "sig_all s'"
proof -
  have m: "sig_ok (q\<lparr>p_mask := w\<rparr>)" "sig_ok (q\<lparr>p_mask_backup := w\<rparr>)"
    if "sig_ok q" "w AND unblockable = 0" for q w
    using that by (simp_all add: sig_ok_def)
  have b: "p_mask q AND unblockable = 0" "p_mask_backup q AND unblockable = 0" if "sig_ok q" for q
    using that by (simp_all add: sig_ok_def)
  define s1 where "s1 = upd_proc p (\<lambda>q. q\<lparr>p_counter := p_counter q + 1\<rparr>) s"
  define s2 where "s2 = (if p_counter (procs s1 p) = 1 then upd_proc p (\<lambda>q. q\<lparr>p_mask_backup := p_mask q\<rparr>) s1 else s1)"
  define s3 where "s3 = upd_proc p (\<lambda>q. q\<lparr>p_mask := p_masks q n\<rparr>) s2"
  consider "s' = s" | s4 where "p_handlers (procs s p) n \<noteq> SIG_DFL" "user_signal_handlng p n s3 = Ok s4"
      "s' = upd_proc p (\<lambda>q. q\<lparr>p_pending := p_pending q XOR sig_bit n\<rparr>)
         (upd_proc p (\<lambda>q. q\<lparr>p_counter := p_counter q - 1, p_mask := p_mask_backup q\<rparr>) s4)"
    using assms(1)
    by (auto simp: deliver_def done_simps kexit_not_Done kthread_exit_not_Done s1_def s2_def s3_def split: if_splits)
  then show ?thesis
  proof cases
    case 2
    have "sig_all s1" using assms(2) by (auto simp: s1_def intro!: sig_all_upd) (simp add: sig_all_def)
    then have "sig_all s2" by (auto simp: s2_def sig_all_def intro!: m b)
    moreover have "p_masks (procs s2 p) n AND unblockable = 0"
      using 2(1) assms(2,3) by (auto simp: s2_def s1_def sig_all_def sig_ok_def)
    ultimately have "sig_all s3" by (auto simp: s3_def sig_all_def intro!: m)
    then have "sig_all s4" using 2(2) by (rule user_signal_handlng_sig [rotated])
    then show ?thesis unfolding 2(3) by (auto simp: sig_all_def intro!: m b)
  qed (use assms(2) in simp)
qed

section \<open>Processes that come and go\<close>

lemma freethread_sig: "freethread t s = Ok s' \<Longrightarrow> sig_all s \<Longrightarrow> sig_all s'"
  by (auto simp: freethread_def ok_simps split: if_splits dest!: call_sig)

lemma kfor_sig:
  "(\<And>x s s'. f x s = Ok s' \<Longrightarrow> sig_all s \<Longrightarrow> sig_all s') \<Longrightarrow> kfor f xs s = Ok s' \<Longrightarrow> sig_all s \<Longrightarrow> sig_all s'"
  by (induction xs arbitrary: s) (auto simp: kbind_eq_Ok)

lemma proc_freepagetable_sig: "proc_freepagetable pt sz s = Ok s' \<Longrightarrow> sig_all s \<Longrightarrow> sig_all s'"
  by (auto simp: proc_freepagetable_def ok_simps dest!: call_sig)

lemma proc_pagetable_sig: "proc_pagetable p s = Ok (a, s') \<Longrightarrow> sig_all s \<Longrightarrow> sig_all s'"
  by (auto simp: proc_pagetable_def ok_simps split: if_splits dest!: call_sig)

lemma freeproc_sig:
  assumes "freeproc p s = Ok s'" and "sig_all s"
  shows "sig_all s'"
proof -
  let ?f = "\<lambda>j s. if t_state (thr s (p, j)) \<noteq> T_UNUSED then freethread (p, j) s else Ok s"
  define free where "free q = q\<lparr>p_pagetable := 0, p_sz := 0, p_pid := 0, p_parent := None, p_name := [],
      p_killed := 0, p_xstate := 0, p_state := UNUSED, p_pending := 0, p_mask := 0, p_mask_backup := 0,
      p_counter := 0, p_handling := 0,
      p_handlers := (\<lambda>i. if i < 32 then SIG_DFL else p_handlers q i),
      p_masks := (\<lambda>i. if i < 32 then 0 else p_masks q i), p_stopped := 0\<rparr>" for q :: proc
  obtain s0 s2 s3 where s0: "(if t_trapframe (thr s (p, 0)) \<noteq> 0 then mcall (\<lambda>h. kfree h (t_trapframe (thr s (p, 0)))) s
           else Ok s) = Ok s0"
    and s: "kfor ?f [0..<NTHREAD] (upd_thr (p, 0) (t_trapframe_update (\<lambda>_. 0)) s0) = Ok s2"
      "(if p_pagetable (procs s2 p) \<noteq> 0 then proc_freepagetable (p_pagetable (procs s2 p)) (p_sz (procs s2 p)) s2
        else Ok s2) = Ok s3"
    and s': "s' = upd_proc p free s3"
    using assms(1) unfolding freeproc_def by (auto simp only: kbind_eq_Ok free_def [abs_def] res.inject)
  have "sig_all s0" using s0 assms(2) by (auto split: if_splits dest: mcall_sig)
  then have "sig_all (upd_thr (p, 0) (t_trapframe_update (\<lambda>_. 0)) s0)" by simp
  with s(1) have "sig_all s2"
    by (rule kfor_sig [rotated]) (auto split: if_splits dest: freethread_sig)
  then have "sig_all s3" using s(2) by (auto split: if_splits dest: proc_freepagetable_sig)
  then show ?thesis unfolding s' by (auto simp: sig_all_def sig_ok_def free_def)
qed

lemma alloctid_sig: "alloctid s = Ok (a, s') \<Longrightarrow> sig_all s \<Longrightarrow> sig_all s'"
  by (auto simp: alloctid_def ok_simps dest!: call_sig)

lemma allocpid_sig: "allocpid s = Ok (a, s') \<Longrightarrow> sig_all s \<Longrightarrow> sig_all s'"
  by (auto simp: allocpid_def ok_simps dest!: call_sig)

lemma allocthread_fail_sig: "allocthread_fail p t s = Ok (a, s') \<Longrightarrow> sig_all s \<Longrightarrow> sig_all s'"
  by (auto simp: allocthread_fail_def ok_simps dest!: call_sig freethread_sig)

lemma allocthread_sig:
  assumes "allocthread p s = Ok (a, s')" and "sig_all s"
  shows "sig_all s'"
proof (cases "find (\<lambda>j. t_state (thr s (p, j)) = T_UNUSED \<or> t_state (thr s (p, j)) = T_ZOMBIE) [0..<NTHREAD]")
  case None
  then show ?thesis using assms by (auto simp: allocthread_def kbind_eq_Ok dest: mcall_sig)
next
  case (Some j)
  note r = assms(1) [unfolded allocthread_def Some option.case]
  obtain s1 where s1: "(if t_state (thr s (p, j)) = T_UNUSED then Ok s else freethread (p, j) s) = Ok s1"
    using r by (rule kbind_OkE)
  note r = r [unfolded s1 kbind.simps]
  have "sig_all s1" using s1 assms(2) by (auto split: if_splits dest: freethread_sig)
  obtain ok s2 where s2: "(if j \<noteq> 0 then kbind (mget kalloc s1) (\<lambda>(k, s). Ok (k \<noteq> 0, upd_thr (p, j) (t_kstack_update (\<lambda>_. k)) s))
      else Ok (True, s1)) = Ok (ok, s2)"
    using r by (rule kbind_OkE) auto
  note r = r [unfolded s2 kbind.simps prod.case]
  have s2s: "sig_all s2" using s2 \<open>sig_all s1\<close> by (auto simp: kbind_eq_Ok split: if_splits dest: mget_sig)
  show ?thesis
  proof (cases ok)
    case True
    then show ?thesis using r s2s
      by (auto simp: ok_simps split: if_splits dest!: alloctid_sig) (auto dest!: mget_sig allocthread_fail_sig)
  next
    case False
    then show ?thesis using r s2s by (auto dest: allocthread_fail_sig)
  qed
qed

lemma allocproc_scan_sig: "allocproc_scan ps s = Ok (a, s') \<Longrightarrow> sig_all s \<Longrightarrow> sig_all s'"
  by (induction ps arbitrary: s) (auto simp: ok_simps split: if_splits dest!: call_sig)

lemma allocproc_fail_sig: "allocproc_fail p s = Ok (a, s') \<Longrightarrow> sig_all s \<Longrightarrow> sig_all s'"
  by (auto simp: allocproc_fail_def ok_simps dest!: call_sig freeproc_sig)

lemma allocproc_sig:
  assumes "allocproc s = Ok (a, s')" and "sig_all s"
  shows "sig_all s'"
proof -
  define new where "new pid q = q\<lparr>p_pid := pid, p_state := USED, p_pending := 0, p_mask := 0, p_stopped := 0,
            p_handling := 0, p_counter := 0,
            p_handlers := (\<lambda>i. if i < 32 then SIG_DFL else p_handlers q i),
            p_masks := (\<lambda>i. if i < 32 then - 1 else p_masks q i),
            p_threads := (\<lambda>j. if j < NTHREAD then (p_threads q j)\<lparr>t_state := T_UNUSED\<rparr> else p_threads q j)\<rparr>"
    for pid and q :: proc
  obtain r s1 where s1: "allocproc_scan [0..<NPROC] s = Ok (r, s1)" "sig_all s1"
    using assms by (auto simp: allocproc_def kbind_eq_Ok dest: allocproc_scan_sig)
  show ?thesis
  proof (cases r)
    case None
    then show ?thesis using assms(1) s1 by (simp add: allocproc_def)
  next
    case (Some p)
    obtain pid s2 where s2: "allocpid s1 = Ok (pid, s2)" "sig_all s2"
      using assms(1) s1 Some by (auto simp: allocproc_def kbind_eq_Ok dest: allocpid_sig)
    have "sig_all (upd_proc p (new pid) s2)" using s2(2) by (auto simp: sig_all_def sig_ok_def new_def)
    moreover obtain start s3 where s3: "mget kalloc (upd_proc p (new pid) s2) = Ok (start, s3)"
      using assms(1) s1 s2 Some by (auto simp: allocproc_def ok_simps new_def [abs_def])
    ultimately have "sig_all s3" by (blast dest: mget_sig)
    then have u: "sig_all (upd_proc p (\<lambda>q. q\<lparr>p_threads := f q\<rparr>) s3)" for f by (simp add: sig_all_def)
    have v: "sig_all (upd_proc p (p_pagetable_update (\<lambda>_. pt)) s4)" if "sig_all s4" for pt s4
      using that by (simp add: sig_all_def)
    from assms(1) show ?thesis
      using s1(1) Some s2(1) s3 u v \<open>sig_all s3\<close>
      by (auto simp: allocproc_def ok_simps new_def [abs_def] split: if_splits
          dest!: allocproc_fail_sig dest: proc_pagetable_sig)
  qed
qed

lemma filedup_sig: "filedup f s = Ok (a, s') \<Longrightarrow> sig_all s \<Longrightarrow> sig_all s'"
  by (auto simp: filedup_def upd_file_def ok_simps split: if_splits dest!: call_sig)

lemma idup_sig: "idup i s = Ok (a, s') \<Longrightarrow> sig_all s \<Longrightarrow> sig_all s'"
  by (auto simp: idup_def upd_inode_def ok_simps split: if_splits dest!: call_sig)

lemma fork_file_sig: "fork_file p np i s = Ok s' \<Longrightarrow> sig_all s \<Longrightarrow> sig_all s'"
  by (auto simp: fork_file_def ok_simps split: option.splits dest!: filedup_sig) (simp add: sig_all_def)

lemma inherit_ok:
  assumes "sig_ok q" and "sig_ok c"
  shows "sig_ok (c\<lparr>p_mask := p_mask q, p_handlers := (\<lambda>i. if i < 32 then p_handlers q i else p_handlers c i),
    p_masks := (\<lambda>i. if i < 32 then p_masks q i else p_masks c i)\<rparr>)"
  using assms by (simp add: sig_ok_def)

text \<open>The part of \<open>fork\<close> after the child has its memory.\<close>

definition fork_child :: "nat \<Rightarrow> nat \<times> nat \<Rightarrow> nat \<Rightarrow> nat \<times> nat \<Rightarrow> kst \<Rightarrow> (i32 \<times> kst) res" where
  "fork_child p t np nt s =
    kbind (kfor (fork_file p np) [0..<NOFILE] s) (\<lambda>s. deref (p_cwd (procs s p)) (\<lambda>cwd.
     kbind (idup cwd s) (\<lambda>(ip, s).
     let s = upd_proc np (\<lambda>q. q\<lparr>p_cwd := Some ip, p_name := name16 (p_name (procs s p))\<rparr>) s;
         s = upd_thr nt (t_name_update (\<lambda>_. name16 (t_name (thr s t)))) s;
         pid = p_pid (procs s np)
     in kbind (krelease (ProcLock np) s) (\<lambda>s.
        kbind (kacquire WaitLock s) (\<lambda>s.
        kbind (krelease WaitLock (upd_proc np (p_parent_update (\<lambda>_. Some p)) s)) (\<lambda>s.
        kbind (kacquire (ProcLock np) s) (\<lambda>s.
        let s = upd_proc np (p_state_update (\<lambda>_. RUNNABLE)) s;
            s = upd_thr nt (t_state_update (\<lambda>_. T_RUNNABLE)) s
        in kbind (krelease (ProcLock np) s) (\<lambda>s. Ok (pid, s)))))))))"

lemma fork_child_sig:
  assumes "fork_child p t np nt s = Ok (r, s')" and "sig_all s"
  shows "sig_all s'"
proof -
  obtain s1 where s1: "kfor (fork_file p np) [0..<NOFILE] s = Ok s1" "sig_all s1"
    using assms by (auto simp: fork_child_def kbind_eq_Ok intro: kfor_sig [of "fork_file p np"] fork_file_sig)
  have u: "sig_all (upd_proc np (\<lambda>q. q\<lparr>p_cwd := a, p_name := b\<rparr>) x) = sig_all x"
    "sig_all (upd_proc np (p_parent_update (\<lambda>_. c)) x) = sig_all x"
    "sig_all (upd_proc np (p_state_update (\<lambda>_. d)) x) = sig_all x" for a b c d x
    by (auto simp: sig_all_def)
  show ?thesis
    using assms(1) s1 by (auto simp: fork_child_def ok_simps u dest!: call_sig idup_sig)
qed

lemma fork_sig:
  assumes "fork s = Ok (r, s')" and "sig_all s"
  shows "sig_all s'"
proof -
  have sz: "sig_all (upd_proc np (p_sz_update (\<lambda>_. x)) s) = sig_all s" for np x s by (auto simp: sig_all_def)
  have inherit: "sig_all (upd_proc np (\<lambda>c. c\<lparr>p_mask := p_mask (procs s p),
      p_handlers := (\<lambda>i. if i < 32 then p_handlers (procs s p) i else p_handlers c i),
      p_masks := (\<lambda>i. if i < 32 then p_masks (procs s p) i else p_masks c i)\<rparr>) s)" if "sig_all s" for np p s
    using that by (auto simp: sig_all_def intro!: inherit_ok)
  show ?thesis
    using assms unfolding fork_def
    by (auto simp: ok_simps fork_child_def [unfolded Let_def, symmetric] sz split: option.splits if_splits
        dest!: call_sig allocproc_sig allocthread_sig freeproc_sig fork_child_sig intro!: inherit)
qed

section \<open>Any sequence of calls\<close>

text \<open>
  The operations of the kernel that write the signal state of a process, in any order, and steps that leave
  it alone.  \<open>exec\<close> resets the handlers of the process that calls it, \<open>wait\<close> frees a process.
\<close>

inductive sig_calls :: "kst \<Rightarrow> kst \<Rightarrow> bool" for s0 where
  none: "sig_calls s0 s0"
| killed: "sig_calls s0 s \<Longrightarrow> kill pid signum s = Ok (r, s') \<Longrightarrow> sig_calls s0 s'"
| masked: "sig_calls s0 s \<Longrightarrow> sigprocmask m s = Ok (old, s') \<Longrightarrow> sig_calls s0 s'"
| handler: "sig_calls s0 s \<Longrightarrow> sigaction junk signum act oldact s = Ok (r, s') \<Longrightarrow> sig_calls s0 s'"
| delivered: "sig_calls s0 s \<Longrightarrow> n < 32 \<Longrightarrow> deliver p n s = Done () s' \<Longrightarrow> sig_calls s0 s'"
| forked: "sig_calls s0 s \<Longrightarrow> fork s = Ok (r, s') \<Longrightarrow> sig_calls s0 s'"
| image: "sig_calls s0 s \<Longrightarrow> sig_calls s0 (upd_proc p reset_handlers s)"
| freed: "sig_calls s0 s \<Longrightarrow> freeproc p s = Ok s' \<Longrightarrow> sig_calls s0 s'"
| elsewhere: "sig_calls s0 s \<Longrightarrow> sigs s' = sigs s \<Longrightarrow> sig_calls s0 s'"

lemma sig_calls_inv: "sig_calls s0 s \<Longrightarrow> sig_all s0 \<Longrightarrow> sig_all s"
proof (induction rule: sig_calls.induct)
  case (image s p)
  then show ?case by (auto simp: sig_all_def reset_handlers_ok)
qed (blast intro: kill_sig sigprocmask_sig sigaction_sig deliver_sig fork_sig freeproc_sig sig_all_sigs)+

lemma boot_sig: "sig_all (boot_kst m)"
  by (simp add: sig_all_def sig_ok_def boot_kst_def zero_proc_def)

text \<open>Processes before the one that is looked for are locked and unlocked again.\<close>

lemma kill_scan_skip:
  assumes "kok s" and "\<forall>q \<in> set qs. lock_free (ProcLock q) (mach s) \<and> p_pid (procs s q) \<noteq> pid"
  shows "kill_scan pid n (qs @ ps) s = kill_scan pid n ps (if qs = [] then s else ktouch s)"
  using assms
proof (induction qs arbitrary: s)
  case (Cons q qs)
  have "kill_scan pid n ((q # qs) @ ps) s = kill_scan pid n (qs @ ps) (ktouch s)"
    using Cons.prems by (simp add: lock_simps)
  then show ?case using Cons.IH [of "ktouch s"] Cons.prems by (simp add: lock_simps)
qed simp

lemma kill_reaches:
  assumes "kok s" and "\<forall>q < NPROC. lock_free (ProcLock q) (mach s)" and "p < NPROC" and "p_pid (procs s p) = pid"
    and "\<forall>q < p. p_pid (procs s q) \<noteq> pid" and "p_state (procs s p) \<noteq> UNUSED" and "p_handlers (procs s p) n \<noteq> SIG_IGN"
  shows "kill_scan pid n [0..<NPROC] s = Ok (0, ktouch (upd_proc p (kill_signal n) s))"
proof -
  have "[0..<NPROC] = [0..<p] @ p # [Suc p..<NPROC]"
    using upt_add_eq_append [of 0 p "NPROC - p"] assms(3) by (simp add: upt_conv_Cons)
  moreover have "kill_scan pid n ([0..<p] @ p # [Suc p..<NPROC]) s =
      kill_scan pid n (p # [Suc p..<NPROC]) (if [0..<p] = [] then s else ktouch s)"
    using assms(1-3,5) by (intro kill_scan_skip) auto
  moreover have "kill_scan pid n (p # [Suc p..<NPROC]) s1 = Ok (0, ktouch (upd_proc p (kill_signal n) s))"
    if "s1 = s \<or> s1 = ktouch s" for s1
    using that assms(1-4,6,7) by (auto simp: lock_simps)
  ultimately show ?thesis by auto
qed

section \<open>Properties\<close>



end
