(* ===== verification/Sigframe.thy ===== *)
theory Sigframe
  imports Signals Ucopy
begin

text \<open>
  The frame a user signal handler runs in, and the return from it: the trapframe that was saved when
  the handler was entered is the one that sigret restores, whatever the handler did to its registers.
\<close>

unbundle bit_operations_syntax

section \<open>Memory of a thread\<close>

text \<open>
  The trapframe and its backup do not meet, and neither the page tables nor the eight bytes at the user's
  stack pointer lie in them.
\<close>

definition frame_ok :: "nat \<Rightarrow> nat \<times> nat \<Rightarrow> kst \<Rightarrow> bool" where
  "frame_ok p t s \<longleftrightarrow>
    (let tf = t_trapframe (thr s t); bk = t_backup (thr s t); root = p_pagetable (procs s p); sp = tf_get s t TF_sp
     in apart tf 288 bk 288 \<and> unat tf + 288 < 2 ^ 64 \<and> unat bk + 288 < 2 ^ 64 \<and>
        pt_ok (mach s) root \<and> urange (kmem s) root sp 8 \<and>
        (\<forall>b \<in> tables (kmem s) root. apart b 4096 bk 288 \<and> apart b 4096 tf 288) \<and>
        (\<forall>i < 8. \<not> within (uaddr (kmem s) root (sp + of_nat i)) tf 288 \<and>
                \<not> within (uaddr (kmem s) root (sp + of_nat i)) bk 288))"

lemma pt_ok_off:
  assumes "pt_ok m root" and "\<forall>b \<in> tables (pmem m) root. apart b 4096 a n"
    and "\<And>x. \<not> within x a n \<Longrightarrow> w x = pmem m x"
  shows "pt_ok (m\<lparr>pmem := w\<rparr>) root" "pte w root = pte (pmem m) root" "tables w root = tables (pmem m) root"
proof -
  have f: "b \<in> tables (pmem m) root \<Longrightarrow> within x b 4096 \<Longrightarrow> w x = pmem m x" for b x
    using assms(2) by (intro assms(3)) (auto dest: apart_within)
  show "pt_ok (m\<lparr>pmem := w\<rparr>) root" using assms(1) by (rule pt_ok_frame [rotated -1]) (simp_all add: f)
  show "pte w root = pte (pmem m) root" "tables w root = tables (pmem m) root"
    by (rule tab_frame_bytes(3), rule f, assumption, assumption) (rule tab_frame_bytes(2), rule f, assumption, assumption)
qed

lemma ld64_cong: "(\<And>x. within x a 8 \<Longrightarrow> m x = m' x) \<Longrightarrow> ld64 m a = ld64 m' a"
  by (rule ld_cong) simp_all

lemma within_field:
  assumes "within x (tf + off) 8" and "unat off + 8 \<le> 288"
  shows "within x tf 288"
proof -
  have "unat (x - (tf + off) + off) \<le> unat (x - (tf + off)) + unat off"
    unfolding unat_word_ariths by (rule mod_less_eq_dividend)
  then have "unat (x - tf) \<le> unat (x - (tf + off)) + unat off" by simp
  then show ?thesis using assms by (simp add: within_def)
qed

text \<open>Stores into the trapframe leave the other fields and everything outside it alone.\<close>

lemma fields_apart:
  "apart (tf + 24) 8 (tf + 112) 8" "apart (tf + 24) 8 (tf + 48) 8" "apart (tf + 24) 8 (tf + 40) 8"
  "apart (tf + 112) 8 (tf + 24) 8" "apart (tf + 112) 8 (tf + 48) 8" "apart (tf + 112) 8 (tf + 40) 8"
  "apart (tf + 48) 8 (tf + 24) 8" "apart (tf + 48) 8 (tf + 112) 8" "apart (tf + 48) 8 (tf + 40) 8"
  "apart (tf + 40) 8 (tf + 24) 8" "apart (tf + 40) 8 (tf + 48) 8" "apart (tf + 40) 8 (tf + 112) 8"
  by (simp_all add: apart_def)

lemma tf_set_fields [simp]:
  "thr (tf_set t off v s) u = thr s u" "procs (tf_set t off v s) = procs s" "hart (tf_set t off v s) = hart s"
  "kmem (tf_set t off v s) = st64 (kmem s) (t_trapframe (thr s t) + off) v"
  by (simp_all add: tf_set_def)

lemma st64_field_outside:
  "\<not> within x tf 288 \<Longrightarrow> unat off + 8 \<le> 288 \<Longrightarrow> st64 m (tf + off) v x = m x"
  by (rule st_outside) (auto dest: within_field)

definition entered :: "nat \<times> nat \<Rightarrow> nat \<Rightarrow> u64 \<Rightarrow> kst \<Rightarrow> kst" where
  "entered t signum handler s =
    (let s = tf_set t TF_ra (tf_get s t TF_sp) s;
         s = tf_set t TF_sp (tf_get s t TF_sp - 8) s;
         s = tf_set t TF_a0 (of_nat signum) s
     in tf_set t TF_epc handler s)"

lemma entered_fields:
  "tf_get (entered t n h s) t TF_epc = h" "tf_get (entered t n h s) t TF_a0 = of_nat n"
  "tf_get (entered t n h s) t TF_ra = tf_get s t TF_sp" "tf_get (entered t n h s) t TF_sp = tf_get s t TF_sp - 8"
  "thr (entered t n h s) = thr s" "procs (entered t n h s) = procs s"
  by (simp_all add: entered_def Let_def tf_get_def mem_simps fields_apart fun_eq_iff)

lemma entered_outside:
  "\<not> within x (t_trapframe (thr s t)) 288 \<Longrightarrow> kmem (entered t n h s) x = kmem s x"
  by (simp add: entered_def Let_def st64_field_outside)

section \<open>Entering a handler\<close>

lemma length_sigret_code [simp]: "length sigret_code = 8"
  by (simp add: sigret_code_def)

lemma user_signal_enters:
  assumes run: "runs p j s" "kok s" and ok: "frame_ok p (p, j) s"
  defines "t \<equiv> (p, j)" and "bk \<equiv> t_backup (thr s (p, j))" and "tf \<equiv> t_trapframe (thr s (p, j))"
  shows "\<exists>s0. user_signal_handlng p n s = Ok (entered t n (p_handlers (procs s p) n) s0) \<and> thr s0 = thr s \<and>
    procs s0 = procs s \<and> tf_get s0 t TF_sp = tf_get s t TF_sp \<and>
    (\<forall>x. within x bk 288 \<longrightarrow> kmem s0 x = kmem s (tf + (x - bk))) \<and>
    (\<forall>i < 8. kmem s0 (uaddr (kmem s) (p_pagetable (procs s p)) (tf_get s t TF_sp + of_nat i)) = sigret_code ! i)"
proof -
  let ?root = "p_pagetable (procs s p)" and ?sp = "tf_get s t TF_sp" and ?s1 = "ktouch s"
  define w where "w = memmove (kmem s) bk tf TF_size"
  have f: "apart tf 288 bk 288" "unat tf + 288 < 2 ^ 64" "pt_ok (mach s) ?root" "urange (kmem s) ?root ?sp 8"
      "\<forall>b \<in> tables (kmem s) ?root. apart b 4096 bk 288"
      "\<And>i. i < 8 \<Longrightarrow> \<not> within (uaddr (kmem s) ?root (?sp + of_nat i)) tf 288"
      "\<And>i. i < 8 \<Longrightarrow> \<not> within (uaddr (kmem s) ?root (?sp + of_nat i)) bk 288"
    using ok by (auto simp: frame_ok_def Let_def tf_def bk_def t_def)
  have w: "w x = (if within x bk 288 then kmem s (tf + (x - bk)) else kmem s x)" for x
    using memmove_eq [of tf TF_size] f(2) by (simp add: w_def)
  have wo: "\<not> within x bk 288 \<Longrightarrow> w x = kmem s x" for x by (simp add: w)
  note pt = pt_ok_off [of "mach s" ?root bk 288 w, OF f(3,5) wo]
  let ?m = "touch (hart s) (mach s)\<lparr>pmem := w\<rparr>"
  have ok2: "pt_ok ?m ?root" using pt(1) by (rule pt_ok_frame [rotated -1]) simp_all
  have ua: "uaddr w ?root = uaddr (kmem s) ?root" using pt(2) by (simp add: uaddr_def fun_eq_iff)
  have "urange w ?root ?sp (length sigret_code)"
    using urange_frame(1) [OF f(4) pt(2,3)] by simp
  then obtain w' where w': "copyout (hart s) ?root ?sp sigret_code ?m = Ok (0, ?m\<lparr>pmem := w'\<rparr>)"
      "\<forall>x. (\<forall>i < 8. x \<noteq> uaddr (kmem s) ?root (?sp + of_nat i)) \<longrightarrow> w' x = w x"
      "\<forall>i < 8. w' (uaddr (kmem s) ?root (?sp + of_nat i)) = sigret_code ! i"
    using copyout_bytes [OF ok2, of ?sp sigret_code "hart s"] by (auto simp: ua)
  have off: "w' x = w x" if "within x tf 288 \<or> within x bk 288" for x
    using that f(6,7) w'(2) by metis
  define s0 where "s0 = s\<lparr>mach := ?m\<lparr>pmem := w'\<rparr>\<rparr>"
  have tfb: "\<not> within x bk 288" if "within x (tf + TF_sp) 8" for x
    using apart_within [OF f(1)] within_field [OF that] by simp
  have sp: "ld64 w (tf + TF_sp) = ?sp" "ld64 w' (tf + TF_sp) = ?sp"
    unfolding tf_get_def t_def tf_def [symmetric]
    by (rule ld64_cong, simp add: wo tfb) (rule ld64_cong, simp add: off within_field wo tfb)
  have "user_signal_handlng p n s = Ok (entered t n (p_handlers (procs s p) n) s0)"
    using run sp w'(1)
    by (simp add: user_signal_handlng_def runs_def entered_def s0_def Let_def t_def tf_get_def upd_mem_def mget_def
        w_def bk_def tf_def)
  moreover have "thr s0 = thr s" "procs s0 = procs s" by (simp_all add: s0_def fun_eq_iff)
  moreover have "tf_get s0 t TF_sp = ?sp" using sp(2) by (simp add: tf_get_def s0_def t_def tf_def)
  moreover have "\<forall>x. within x bk 288 \<longrightarrow> kmem s0 x = kmem s (tf + (x - bk))" by (simp add: s0_def off w)
  moreover have "\<forall>i < 8. kmem s0 (uaddr (kmem s) ?root (?sp + of_nat i)) = sigret_code ! i"
    using w'(3) by (simp add: s0_def)
  ultimately show ?thesis by blast
qed

section \<open>Properties\<close>


text \<open>A thread with a handler at 0x40 for signal 2 and its stack pointer at 0x100.\<close>

definition signal_demo :: kst where
  "signal_demo = upd_thr (0, 0) (\<lambda>t. t\<lparr>t_trapframe := 0x80026000, t_backup := 0x80027000\<rparr>)
    (upd_proc 0 (\<lambda>q. q\<lparr>p_pagetable := 0x80022000, p_handlers := (p_handlers q)(2 := 0x40)\<rparr>)
      (one_thread (one_page\<lparr>pmem := st64 (pmem one_page) 0x80026030 0x100\<rparr>)))"

lemma signal_demo_fields:
  "t_trapframe (thr signal_demo (0, 0)) = 0x80026000" "t_backup (thr signal_demo (0, 0)) = 0x80027000"
  "p_pagetable (procs signal_demo 0) = 0x80022000" "p_handlers (procs signal_demo 0) 2 = 0x40"
  "kmem signal_demo = st64 (pmem one_page) 0x80026030 0x100" "kend (mach signal_demo) = kend one_page"
  "tf_get signal_demo (0, 0) TF_sp = 0x100" "hart signal_demo = 0" "runs 0 0 signal_demo" "kok signal_demo"
proof -
  show a: "t_trapframe (thr signal_demo (0, 0)) = 0x80026000" "t_backup (thr signal_demo (0, 0)) = 0x80027000"
    "p_pagetable (procs signal_demo 0) = 0x80022000" "p_handlers (procs signal_demo 0) 2 = 0x40"
    by (simp_all add: signal_demo_def procs_upd_thr)
  show b: "kmem signal_demo = st64 (pmem one_page) 0x80026030 0x100" "kend (mach signal_demo) = kend one_page"
    "hart signal_demo = 0" "runs 0 0 signal_demo" "kok signal_demo"
    by (simp_all add: signal_demo_def one_thread_def boot_kst_def upd_mycpu_def upd_cpu_def runs_def mycpu_def cpuid_def
        cpu_ok_def one_page_def idle_machine_def)
  show "tf_get signal_demo (0, 0) TF_sp = 0x100" by (simp add: tf_get_def a b mem_simps)
qed

lemma signal_demo_ok: "frame_ok 0 (0, 0) signal_demo"
proof -
  let ?w = "st64 (pmem one_page) 0x80026030 0x100"
  have out: "\<not> within x 0x80026030 8 \<Longrightarrow> ?w x = pmem one_page x" for x by (rule st_outside) simp_all
  have ap: "\<forall>b \<in> tables (pmem one_page) 0x80022000. apart b 4096 0x80026030 8"
    by (simp add: one_page_tables apart_def)
  note pt = pt_ok_off [OF one_page_ok ap out]
  have ok: "pt_ok (mach signal_demo) 0x80022000"
    using pt(1) by (rule pt_ok_frame [rotated -1]) (simp_all add: signal_demo_fields)
  have "urange (pmem one_page) 0x80022000 (0 + of_nat 256) 8"
    by (rule urange_drop) (use one_page_urange in simp)
  then have r: "urange ?w 0x80022000 0x100 8" using urange_frame(1) [OF _ pt(2,3), of _ 8] by simp
  have v: "vpn (0x100 + of_nat i) = 0" "PGROUNDDOWN (0x100 + of_nat i) = 0" if "i < 8" for i
  proof -
    have "unat (0x100 + of_nat i :: u64) = 256 + i" using that by (simp add: unat_word_ariths unat_of_nat_small)
    then show "vpn (0x100 + of_nat i) = 0" "PGROUNDDOWN (0x100 + of_nat i) = 0"
      using that by (simp_all add: vpn_def word_unat_eq_iff unat_PGROUNDDOWN)
  qed
  have u: "uaddr ?w 0x80022000 (0x100 + of_nat i) = 0x80025100 + of_nat i" if "i < 8" for i
    using urange_frame(2) [OF _ pt(2,3)] one_page_uaddr [OF v(1) [OF that]] v(2) [OF that] one_page_urange [of 0] by simp
  have "\<not> within (0x80025100 + of_nat i) 0x80026000 288 \<and> \<not> within (0x80025100 + of_nat i) 0x80027000 288"
    if "i < 8" for i
  proof -
    consider "i = 0" | "i = 1" | "i = 2" | "i = 3" | "i = 4" | "i = 5" | "i = 6" | "i = 7" using \<open>i < 8\<close> by linarith
    then show ?thesis by cases (simp_all add: within_def)
  qed
  then show ?thesis
    using ok r u pt(3) by (simp add: frame_ok_def Let_def signal_demo_fields one_page_tables apart_def)
qed


end
