(* ===== verification/Lru.thy ===== *)
theory Lru
  imports Bio
begin

text \<open>
  The list of the buffer cache as a list of buffers, most recently used first: what the pointer
  assignments of binit, bget and brelse do to it, and what bget finds in it.
\<close>

section \<open>Pointers\<close>

lemma bnext_set [simp]:
  "bnext (set_bnext a v x) b = (if b = a then v else bnext x b)" "bnext (set_bprev a v x) b = bnext x b"
  "bprev (set_bprev a v x) b = (if b = a then v else bprev x b)" "bprev (set_bnext a v x) b = bprev x b"
  by (cases a; cases b; simp)+

lemma bc_eq: "bc_next x = bnext x BHead" "bc_prev x = bprev x BHead"
  by simp_all

declare bnext.simps [simp del] bprev.simps [simp del] set_bnext.simps [simp del] set_bprev.simps [simp del]

text \<open>From node \<open>a\<close> through the buffers \<open>bs\<close> to node \<open>c\<close>, by next and back by prev.\<close>

fun seg :: "fsys \<Rightarrow> bnode \<Rightarrow> nat list \<Rightarrow> bnode \<Rightarrow> bool" where
  "seg x a [] c = (bnext x a = c \<and> bprev x c = a)"
| "seg x a (b # bs) c = (bnext x a = BBuf b \<and> bprev x (BBuf b) = a \<and> seg x (BBuf b) bs c)"

definition ring :: "fsys \<Rightarrow> nat list \<Rightarrow> bool" where
  "ring x bs = (distinct bs \<and> seg x BHead bs BHead)"

lemma seg_append: "seg x a (us @ b # vs) c \<longleftrightarrow> seg x a us (BBuf b) \<and> seg x (BBuf b) vs c"
  by (induction us arbitrary: a) auto

lemma seg_frame:
  assumes "\<And>n. n \<in> insert a (BBuf ` set bs) \<Longrightarrow> bnext x' n = bnext x n"
    and "\<And>n. n \<in> insert c (BBuf ` set bs) \<Longrightarrow> bprev x' n = bprev x n"
  shows "seg x' a bs c = seg x a bs c"
  using assms by (induction bs arbitrary: a) auto

lemma seg_last: "seg x a bs c \<Longrightarrow> bprev x c = (if bs = [] then a else BBuf (last bs))"
  by (induction bs arbitrary: a) auto

lemma seg_redirect:
  assumes "seg x a us m" and "distinct us" and "a \<notin> BBuf ` set us" and "n \<notin> BBuf ` set us"
    and "bnext x' = (bnext x)(bprev x m := n)" and "\<And>b. b \<noteq> n \<Longrightarrow> bprev x' b = bprev x b" and "bprev x' n = bprev x m"
  shows "seg x' a us n"
  using assms
proof (induction us arbitrary: a)
  case (Cons u us)
  have p: "bprev x m = BBuf (last (u # us))" using seg_last [OF Cons.prems(1)] by simp
  have "last (u # us) \<in> set (u # us)" by (rule last_in_set) simp
  then have "bprev x m \<noteq> a" using Cons.prems(3) unfolding p by blast
  then show ?case using Cons.prems Cons.IH [of "BBuf u"] by auto
qed auto

lemma ring_unlink:
  assumes "ring x (us @ b # vs)"
  shows "ring (unlink (BBuf b) x) (us @ vs)"
proof -
  let ?n = "bnext x (BBuf b)" and ?p = "bprev x (BBuf b)" and ?x = "unlink (BBuf b) x"
  have d: "distinct us" "distinct vs" "b \<notin> set us" "b \<notin> set vs" "set us \<inter> set vs = {}"
    and s: "seg x BHead us (BBuf b)" "seg x (BBuf b) vs BHead"
    using assms by (auto simp: ring_def seg_append)
  have p: "?p = (if us = [] then BHead else BBuf (last us))" using seg_last [OF s(1)] .
  have n: "?n = (if vs = [] then BHead else BBuf (hd vs))" using s(2) by (cases vs) auto
  have nb: "?n \<noteq> BBuf b" using d(4) by (cases vs) (auto simp: n)
  have x: "bnext ?x = (bnext x)(?p := ?n)" "bprev ?x = (bprev x)(?n := ?p)"
    using nb by (auto simp: unlink_def Let_def fun_eq_iff)
  have nus: "?n \<notin> BBuf ` set us" using d(5) by (cases vs) (auto simp: n)
  have us: "seg ?x BHead us ?n" by (rule seg_redirect [OF s(1) d(1) _ nus x(1)]) (auto simp: x(2))
  show ?thesis
  proof (cases vs)
    case Nil
    then show ?thesis using us d n by (simp add: ring_def)
  next
    case (Cons v vs')
    have "?p \<notin> BBuf ` set vs" using d(5) by (cases "us = []") (auto simp: p dest: last_in_set)
    then have "seg ?x (BBuf v) vs' BHead = seg x (BBuf v) vs' BHead"
      using d(2) Cons n by (intro seg_frame) (auto simp: x)
    then show ?thesis using us d s(2) n Cons by (auto simp: ring_def seg_append)
  qed
qed

lemma ring_link:
  assumes "ring x bs" and "b \<notin> set bs"
  shows "ring (link_front (BBuf b) x) (b # bs)"
proof -
  let ?x = "link_front (BBuf b) x" and ?n = "bnext x BHead"
  have n: "?n = (if bs = [] then BHead else BBuf (hd bs))" using assms(1) by (cases bs) (auto simp: ring_def)
  have nb: "?n \<noteq> BBuf b" using assms(2) n by (cases bs) auto
  have x: "bnext ?x = (bnext x)(BBuf b := ?n, BHead := BBuf b)" "bprev ?x = (bprev x)(BBuf b := BHead, ?n := BBuf b)"
    using nb by (auto simp: link_front_def Let_def fun_eq_iff bc_eq)
  have "seg ?x (BBuf b) bs BHead"
  proof (cases bs)
    case Nil
    then show ?thesis using n by (simp add: x)
  next
    case (Cons c cs)
    have "seg ?x (BBuf c) cs BHead = seg x (BBuf c) cs BHead"
      using assms Cons n by (intro seg_frame) (auto simp: x ring_def)
    then show ?thesis using assms Cons n by (auto simp: x ring_def)
  qed
  then show ?thesis using assms nb by (auto simp: ring_def x)
qed

section \<open>Searching the list\<close>

lemma bscan_fwd_find:
  "seg x a bs BHead \<Longrightarrow> length bs < n \<Longrightarrow> bscan_fwd n P x (bnext x a) = Ok (find (\<lambda>i. P (bufs x i)) bs)"
proof (induction bs arbitrary: a n)
  case Nil
  then show ?case by (cases n) auto
next
  case (Cons b bs)
  then obtain k where "n = Suc k" by (cases n) auto
  then show ?case using Cons.IH [of "BBuf b" k] Cons.prems by (auto simp: bnext.simps)
qed

lemma bscan_bwd_find:
  "seg x BHead bs c \<Longrightarrow> length bs < n \<Longrightarrow> bscan_bwd n P x (bprev x c) = Ok (find (\<lambda>i. P (bufs x i)) (rev bs))"
proof (induction bs arbitrary: c n rule: rev_induct)
  case Nil
  then show ?case by (cases n) auto
next
  case (snoc b bs)
  then obtain k where n: "n = Suc k" by (cases n) auto
  have "bprev x c = BBuf b" "seg x BHead bs (BBuf b)" using snoc.prems(1) by (auto simp: seg_append)
  then show ?case using snoc.IH [of "BBuf b" k] snoc.prems n by (auto simp: bprev.simps)
qed

section \<open>The cache\<close>

text \<open>
  The list holds every buffer once, and no two buffers hold the same block; the buffers that have never been
  used have device 0, which is no disk.
\<close>

definition cache_ok :: "fsys \<Rightarrow> nat list \<Rightarrow> bool" where
  "cache_ok x bs \<longleftrightarrow> ring x bs \<and> set bs = {..<NBUF} \<and>
    (\<forall>i < NBUF. \<forall>j < NBUF. b_dev (bufs x i) \<noteq> 0 \<longrightarrow> b_dev (bufs x i) = b_dev (bufs x j) \<longrightarrow>
       b_blockno (bufs x i) = b_blockno (bufs x j) \<longrightarrow> i = j)"

lemma ring_cong: "(\<And>n. bnext x' n = bnext x n) \<Longrightarrow> (\<And>n. bprev x' n = bprev x n) \<Longrightarrow> ring x' bs = ring x bs"
  unfolding ring_def using seg_frame [of BHead bs x' x BHead] by simp

lemma ring_links:
  assumes "\<And>i. b_next (bufs x' i) = b_next (bufs x i)" and "\<And>i. b_prev (bufs x' i) = b_prev (bufs x i)"
    and "bc_next x' = bc_next x" and "bc_prev x' = bc_prev x"
  shows "ring x' bs = ring x bs"
proof (rule ring_cong)
  show "bnext x' n = bnext x n" "bprev x' n = bprev x n" for n
    using assms by (cases n; simp add: bnext.simps bprev.simps)+
qed

lemma bf_upd_buf [simp]:
  "bf (upd_buf i f s) j = (if j = i then f (bf s i) else bf s j)" "bc_next (fs (upd_buf i f s)) = bc_next (fs s)"
  "bc_prev (fs (upd_buf i f s)) = bc_prev (fs s)" "mach (upd_buf i f s) = mach s" "hart (upd_buf i f s) = hart s"
  "procs (upd_buf i f s) = procs s"
  by (simp_all add: upd_buf_def)

abbreviation holds :: "u32 \<Rightarrow> u32 \<Rightarrow> buf \<Rightarrow> bool" where
  "holds dev blockno b \<equiv> b_dev b = dev \<and> b_blockno b = blockno"

lemma cache_scans:
  assumes "cache_ok (fs s) bs"
  shows "bscan_fwd (NBUF + 1) P (fs s) (bc_next (fs s)) = Ok (find (\<lambda>i. P (bf s i)) bs)"
    and "bscan_bwd (NBUF + 1) P (fs s) (bc_prev (fs s)) = Ok (find (\<lambda>i. P (bf s i)) (rev bs))"
proof -
  have s: "seg (fs s) BHead bs BHead" "distinct bs" "set bs = {..<NBUF}" using assms by (auto simp: cache_ok_def ring_def)
  then have "length bs = NBUF" using distinct_card by fastforce
  then show "bscan_fwd (NBUF + 1) P (fs s) (bc_next (fs s)) = Ok (find (\<lambda>i. P (bf s i)) bs)"
    and "bscan_bwd (NBUF + 1) P (fs s) (bc_prev (fs s)) = Ok (find (\<lambda>i. P (bf s i)) (rev bs))"
    using bscan_fwd_find [OF s(1), of "NBUF + 1" P] bscan_bwd_find [OF s(1), of "NBUF + 1" P] by (simp_all add: bc_eq)
qed

lemma bget_find_hit:
  assumes "cache_ok (fs s) bs" and "i < NBUF" and "holds dev blockno (bf s i)" and "dev \<noteq> 0"
  shows "bget_find dev blockno s = Ok (i, upd_buf i (\<lambda>b. b\<lparr>b_refcnt := b_refcnt b + 1\<rparr>) s)"
proof -
  have "find (\<lambda>j. holds dev blockno (bf s j)) bs = Some i"
  proof (cases "find (\<lambda>j. holds dev blockno (bf s j)) bs")
    case None
    then show ?thesis using assms by (auto simp: find_None_iff cache_ok_def)
  next
    case (Some j)
    then have "j \<in> set bs" "holds dev blockno (bf s j)" by (auto simp: find_Some_iff)
    then show ?thesis using Some assms by (auto simp: cache_ok_def)
  qed
  then show ?thesis unfolding bget_find_def cache_scans [OF assms(1)] by (simp cong: option.case_cong)
qed

lemma bget_find_miss:
  assumes "cache_ok (fs s) bs" and "\<forall>i < NBUF. \<not> holds dev blockno (bf s i)"
  shows "bget_find dev blockno s = (case find (\<lambda>i. b_refcnt (bf s i) = 0) (rev bs) of
      Some i \<Rightarrow> Ok (i, upd_buf i (\<lambda>b. b\<lparr>b_dev := dev, b_blockno := blockno, b_valid := 0, b_refcnt := 1\<rparr>) s)
    | None \<Rightarrow> Panic ''bget: no buffers'')"
proof -
  have "find (\<lambda>j. holds dev blockno (bf s j)) bs = None"
    using assms by (auto simp: find_None_iff cache_ok_def)
  then show ?thesis unfolding bget_find_def cache_scans [OF assms(1)] by (simp cong: option.case_cong)
qed

lemma cache_ok_recycle:
  assumes "cache_ok (fs s) bs" and "\<forall>i < NBUF. \<not> holds dev blockno (bf s i)" and "dev \<noteq> 0"
  shows "cache_ok (fs (upd_buf i (\<lambda>b. b\<lparr>b_dev := dev, b_blockno := blockno, b_valid := 0, b_refcnt := 1\<rparr>) s)) bs"
proof -
  have "ring (fs (upd_buf i (\<lambda>b. b\<lparr>b_dev := dev, b_blockno := blockno, b_valid := 0, b_refcnt := 1\<rparr>) s)) bs = ring (fs s) bs"
    by (rule ring_links) auto
  then show ?thesis using assms by (auto simp: cache_ok_def)
qed

lemma cache_ok_upd:
  assumes "cache_ok (fs s) bs"
    and "\<And>b. b_next (f b) = b_next b" "\<And>b. b_prev (f b) = b_prev b" "\<And>b. b_dev (f b) = b_dev b" "\<And>b. b_blockno (f b) = b_blockno b"
  shows "cache_ok (fs (upd_buf i f s)) bs"
proof -
  have "ring (fs (upd_buf i f s)) bs = ring (fs s) bs" by (rule ring_links) (auto simp: assms(2-5))
  moreover have "b_dev (bf (upd_buf i f s) j) = b_dev (bf s j)" "b_blockno (bf (upd_buf i f s) j) = b_blockno (bf s j)" for j
    by (simp_all add: assms(2-5))
  ultimately show ?thesis using assms(1) unfolding cache_ok_def by simp
qed

lemma set_links:
  "b_dev (bufs (set_bnext n v x) j) = b_dev (bufs x j)" "b_dev (bufs (set_bprev n v x) j) = b_dev (bufs x j)"
  "b_blockno (bufs (set_bnext n v x) j) = b_blockno (bufs x j)" "b_blockno (bufs (set_bprev n v x) j) = b_blockno (bufs x j)"
  "b_refcnt (bufs (set_bnext n v x) j) = b_refcnt (bufs x j)" "b_refcnt (bufs (set_bprev n v x) j) = b_refcnt (bufs x j)"
  by (cases n; simp add: set_bnext.simps set_bprev.simps)+

lemma cache_ok_touch:
  assumes "cache_ok x bs" and "b < NBUF"
  shows "cache_ok (link_front (BBuf b) (unlink (BBuf b) x)) (b # remove1 b bs)"
proof -
  obtain us vs where bs: "bs = us @ b # vs" using assms by (metis cache_ok_def lessThan_iff split_list)
  have d: "distinct bs" using assms(1) by (simp add: cache_ok_def ring_def)
  then have r: "remove1 b bs = us @ vs" by (simp add: bs remove1_append)
  have "ring (unlink (BBuf b) x) (us @ vs)" using assms(1) by (intro ring_unlink) (simp add: cache_ok_def bs)
  then have "ring (link_front (BBuf b) (unlink (BBuf b) x)) (b # us @ vs)"
    using d bs by (intro ring_link) auto
  moreover have "set (b # us @ vs) = {..<NBUF}" using assms(1) by (auto simp: cache_ok_def bs)
  moreover have "b_dev (bufs (link_front (BBuf b) (unlink (BBuf b) x)) j) = b_dev (bufs x j)"
    "b_blockno (bufs (link_front (BBuf b) (unlink (BBuf b) x)) j) = b_blockno (bufs x j)" for j
    by (simp_all add: link_front_def unlink_def Let_def set_links)
  ultimately show ?thesis using assms(1) unfolding cache_ok_def r by simp
qed

section \<open>The operations\<close>

lemma mcall_fs: "mcall f s = Ok s' \<Longrightarrow> fs s' = fs s"
  by (auto simp: mcall_def kbind_eq_Ok)

lemma myproc_fs: "myproc s = Ok (p, s') \<Longrightarrow> fs s' = fs s"
  by (auto simp: myproc_def Let_def kbind_eq_Ok dest: mcall_fs)

lemma kfor_fs: "(\<And>x s s'. f x s = Ok s' \<Longrightarrow> fs s' = fs s) \<Longrightarrow> kfor f xs s = Ok s' \<Longrightarrow> fs s' = fs s"
proof (induction xs arbitrary: s)
  case (Cons a xs)
  then obtain s1 where "f a s = Ok s1" "kfor f xs s1 = Ok s'" by (auto simp: kbind_eq_Ok)
  then show ?case using Cons.IH [of s1] Cons.prems(1) by simp
qed simp

lemma wakeup_fs: "wakeup ch s = Ok s' \<Longrightarrow> fs s' = fs s"
  unfolding wakeup_def
  by (rule kfor_fs) (auto simp: wakeup_proc_def kbind_eq_Ok split: if_splits dest!: mcall_fs)

lemma holdingsleep_fs: "holdingsleep lk s = Ok (r, s') \<Longrightarrow> fs s' = fs s"
  by (cases "r") (auto simp: holdingsleep_def kbind_eq_Ok split: if_splits dest!: mcall_fs myproc_fs elim!: deref.elims)

lemma releasesleep_fs:
  "releasesleep (BufLock b) s = Ok s' \<Longrightarrow> fs s' = fs (upd_buf b (b_lock_update (\<lambda>x. x\<lparr>sl_locked := 0, sl_pid := 0\<rparr>)) s)"
  by (auto simp: releasesleep_def kbind_eq_Ok upd_buf_def dest!: mcall_fs wakeup_fs)

lemma brelse_cache:
  assumes "brelse b s = Ok s'" and "cache_ok (fs s) bs" and "b < NBUF"
  shows "cache_ok (fs s') (if b_refcnt (bf s b) = 1 then b # remove1 b bs else bs)"
proof -
  obtain s1 s2 s3 where s: "holdingsleep (BufLock b) s = Ok (True, s1)" "releasesleep (BufLock b) s1 = Ok s2"
      "kacquire BcacheLock s2 = Ok s3"
    and s': "krelease BcacheLock (let s = upd_buf b (\<lambda>x. x\<lparr>b_refcnt := b_refcnt x - 1\<rparr>) s3
       in if b_refcnt (bf s b) = 0 then upd_fs (\<lambda>x. link_front (BBuf b) (unlink (BBuf b) x)) s else s) = Ok s'"
    using assms(1) by (auto simp: brelse_def kbind_eq_Ok Let_def split: if_splits)
  have "cache_ok (fs s1) bs" "bf s1 b = bf s b" using holdingsleep_fs [OF s(1)] assms(2) by simp_all
  then have c: "cache_ok (fs s3) bs" "b_refcnt (bf s3 b) = b_refcnt (bf s b)"
    using releasesleep_fs [OF s(2)] mcall_fs [OF s(3)]
      cache_ok_upd [of s1 bs "b_lock_update (\<lambda>x. x\<lparr>sl_locked := 0, sl_pid := 0\<rparr>)" b] by simp_all
  let ?s = "upd_buf b (\<lambda>x. x\<lparr>b_refcnt := b_refcnt x - 1\<rparr>) s3"
  have "cache_ok (fs ?s) bs" using c(1) by (rule cache_ok_upd) simp_all
  moreover have "fs s' = (if b_refcnt (bf s b) = 1 then link_front (BBuf b) (unlink (BBuf b) (fs ?s)) else fs ?s)"
    using mcall_fs [OF s'] c(2) by (simp add: Let_def split: if_splits)
  ultimately show ?thesis using cache_ok_touch [of "fs ?s" bs b] assms(3) by simp
qed

lemma links_lock:
  "bnext (fs (upd_sl lk f s)) n = bnext (fs s) n" "bprev (fs (upd_sl lk f s)) n = bprev (fs s) n"
  by (cases lk; cases n; simp add: upd_buf_def upd_inode_def bnext.simps bprev.simps)+

lemma ring_binit:
  "ring (fs s) bs \<Longrightarrow> set bs \<inter> set ns = {} \<Longrightarrow> distinct ns \<Longrightarrow>
   ring (fs (fold (\<lambda>b s. upd_fs (\<lambda>x. set_bnext BHead (BBuf b) (set_bprev (bnext x BHead) (BBuf b) x))
      (initsleeplock (BufLock b) (upd_fs (\<lambda>x. set_bprev (BBuf b) BHead (set_bnext (BBuf b) (bc_next x) x)) s))) ns s)) (rev ns @ bs)"
proof (induction ns arbitrary: s bs)
  case (Cons b ns)
  let ?s = "upd_fs (\<lambda>x. set_bnext BHead (BBuf b) (set_bprev (bnext x BHead) (BBuf b) x))
      (initsleeplock (BufLock b) (upd_fs (\<lambda>x. set_bprev (BBuf b) BHead (set_bnext (BBuf b) (bc_next x) x)) s))"
  have "ring (link_front (BBuf b) (fs s)) (b # bs)" using Cons.prems by (intro ring_link) auto
  moreover have "ring (fs ?s) (b # bs) = ring (link_front (BBuf b) (fs s)) (b # bs)"
    by (rule ring_cong) (simp_all add: initsleeplock_def link_front_def Let_def links_lock bc_eq
        del: upd_sl.simps)
  ultimately show ?case using Cons.IH [of ?s "b # bs"] Cons.prems by simp
qed simp


lemma fold_buf:
  assumes "\<And>b s. g (bf (f b s) i) = g (bf s i)"
  shows "g (bf (fold f ns s) i) = g (bf s i)"
  by (induction ns arbitrary: s) (simp_all add: assms)

lemma binit_fields: "b_dev (bf (binit s) i) = b_dev (bf s i)" "b_refcnt (bf (binit s) i) = b_refcnt (bf s i)"
  unfolding binit_def Let_def
  by (subst fold_buf [of b_dev]; auto simp: initsleeplock_def upd_buf_def set_links)
    (subst fold_buf [of b_refcnt]; auto simp: initsleeplock_def upd_buf_def set_links)

lemma binit_cache:
  assumes "\<forall>i. b_dev (bf s i) = 0"
  shows "cache_ok (fs (binit s)) (rev [0..<NBUF])"
proof -
  let ?s = "upd_fs (\<lambda>x. x\<lparr>bc_prev := BHead, bc_next := BHead\<rparr>) (s\<lparr>mach := initlock BcacheLock ''bcache'' (mach s)\<rparr>)"
  have "ring (fs ?s) []" by (simp add: ring_def bnext.simps bprev.simps)
  then have "ring (fs (binit s)) (rev [0..<NBUF] @ [])"
    unfolding binit_def Let_def by (rule ring_binit) simp_all
  then show ?thesis using assms by (auto simp: cache_ok_def binit_fields)
qed

lemma find_SomeD:
  "find P xs = Some x \<Longrightarrow> \<exists>us vs. xs = us @ x # vs \<and> P x \<and> (\<forall>y \<in> set us. \<not> P y)"
proof (induction xs)
  case (Cons a xs)
  show ?case
  proof (cases "P a")
    case True
    then show ?thesis using Cons.prems by (intro exI [of _ "[]"] exI [of _ xs]) simp
  next
    case False
    then obtain us vs where "xs = us @ x # vs" "P x" "\<forall>y \<in> set us. \<not> P y" using Cons by auto
    then show ?thesis using False by (intro exI [of _ "a # us"] exI [of _ vs]) simp
  qed
qed simp

text \<open>
  The cache since boot: buffers are found or recycled by bget, released, pinned and unpinned, and otherwise
  neither their place in the list nor the block they hold changes.
\<close>

inductive cache_run :: "kst \<Rightarrow> nat list \<Rightarrow> bool" where
  started: "\<forall>i. b_dev (bf s i) = 0 \<Longrightarrow> cache_run (binit s) (rev [0..<NBUF])"
| got: "cache_run s bs \<Longrightarrow> dev \<noteq> 0 \<Longrightarrow> bget_find dev blockno s = Ok (i, s') \<Longrightarrow> cache_run s' bs"
| released: "cache_run s bs \<Longrightarrow> b < NBUF \<Longrightarrow> brelse b s = Ok s' \<Longrightarrow>
    cache_run s' (if b_refcnt (bf s b) = 1 then b # remove1 b bs else bs)"
| pinned: "cache_run s bs \<Longrightarrow> bpin b s = Ok s' \<Longrightarrow> cache_run s' bs"
| unpinned: "cache_run s bs \<Longrightarrow> bunpin b s = Ok s' \<Longrightarrow> cache_run s' bs"
| elsewhere: "cache_run s bs \<Longrightarrow> bc_next (fs s') = bc_next (fs s) \<Longrightarrow> bc_prev (fs s') = bc_prev (fs s) \<Longrightarrow>
    (\<And>i. b_next (bf s' i) = b_next (bf s i)) \<Longrightarrow> (\<And>i. b_prev (bf s' i) = b_prev (bf s i)) \<Longrightarrow>
    (\<And>i. b_dev (bf s' i) = b_dev (bf s i)) \<Longrightarrow> (\<And>i. b_blockno (bf s' i) = b_blockno (bf s i)) \<Longrightarrow> cache_run s' bs"

lemma bget_find_cache:
  assumes "cache_ok (fs s) bs" and "dev \<noteq> 0" and "bget_find dev blockno s = Ok (i, s')"
  shows "cache_ok (fs s') bs"
proof (cases "\<exists>j < NBUF. holds dev blockno (bf s j)")
  case True
  then obtain j where "j < NBUF" "holds dev blockno (bf s j)" by blast
  then have "s' = upd_buf j (\<lambda>b. b\<lparr>b_refcnt := b_refcnt b + 1\<rparr>) s" using bget_find_hit [OF assms(1) _ _ assms(2)] assms(3) by auto
  then show ?thesis using cache_ok_upd [OF assms(1)] by simp
next
  case False
  then have "s' = upd_buf i (\<lambda>b. b\<lparr>b_dev := dev, b_blockno := blockno, b_valid := 0, b_refcnt := 1\<rparr>) s"
    using bget_find_miss [OF assms(1)] assms(3) by (auto split: option.splits)
  then show ?thesis using cache_ok_recycle [OF assms(1) _ assms(2)] False by simp
qed

lemma cache_run_ok: "cache_run s bs \<Longrightarrow> cache_ok (fs s) bs"
proof (induction rule: cache_run.induct)
  case (started s)
  then show ?case by (rule binit_cache)
next
  case (got s bs dev blockno i s')
  then show ?case by (blast intro: bget_find_cache)
next
  case (released s bs b s')
  then show ?case by (intro brelse_cache)
next
  case (pinned s bs b s')
  then show ?case using cache_ok_upd [of _ bs "\<lambda>x. x\<lparr>b_refcnt := b_refcnt x + 1\<rparr>" b]
    by (auto simp: bpin_def kbind_eq_Ok dest!: mcall_fs)
next
  case (unpinned s bs b s')
  then show ?case using cache_ok_upd [of _ bs "\<lambda>x. x\<lparr>b_refcnt := b_refcnt x - 1\<rparr>" b]
    by (auto simp: bunpin_def kbind_eq_Ok dest!: mcall_fs)
next
  case (elsewhere s bs s')
  have "ring (fs s') bs = ring (fs s) bs" using elsewhere.hyps by (intro ring_links)
  then show ?case using elsewhere.IH elsewhere.hyps by (simp add: cache_ok_def)
qed

section \<open>Properties\<close>

text \<open>
  C18. The buffer cache never holds a block twice.  From boot, over any sequence of bget, brelse, bpin and bunpin,
  the next pointers from the head visit all 30 buffers once and lead back to it, the prev pointers lead back the
  same way, most recently released first, and no two buffers hold the same block of a disk.
\<close>

theorem bcache_no_duplicates:
  assumes "cache_run s bs"
  shows "ring (fs s) bs \<and> distinct bs \<and> set bs = {..<NBUF} \<and>
    (\<forall>i < NBUF. \<forall>j < NBUF. b_dev (bf s i) \<noteq> 0 \<longrightarrow> b_dev (bf s i) = b_dev (bf s j) \<longrightarrow>
       b_blockno (bf s i) = b_blockno (bf s j) \<longrightarrow> i = j)"
  using cache_run_ok [OF assms] by (simp add: cache_ok_def ring_def)

theorem bcache_no_duplicates_witness:
  "ring (fs (binit (boot_kst idle_machine))) (rev [0..<NBUF])"
proof -
  have "\<forall>i. b_dev (bf (boot_kst idle_machine) i) = 0" by (simp add: boot_kst_def zero_fs_def)
  then show ?thesis using bcache_no_duplicates [OF cache_run.started] by blast
qed

text \<open>
  C19. What bget returns.  When a buffer holds the block, it is the one returned, with one more reference and its
  data kept.  Otherwise the buffer without references that was released longest ago is given to the block,
  marked invalid, with one reference.  When every buffer is referenced bget panics.  No other buffer changes.
\<close>

theorem bget_find_lru:
  assumes "cache_run s bs" and "dev \<noteq> 0"
  shows "(\<forall>i < NBUF. holds dev blockno (bf s i) \<longrightarrow>
      bget_find dev blockno s = Ok (i, upd_buf i (\<lambda>b. b\<lparr>b_refcnt := b_refcnt b + 1\<rparr>) s)) \<and>
    ((\<forall>i < NBUF. \<not> holds dev blockno (bf s i)) \<longrightarrow> (\<exists>i < NBUF. b_refcnt (bf s i) = 0) \<longrightarrow>
      (\<exists>i us vs. bs = us @ i # vs \<and> b_refcnt (bf s i) = 0 \<and> (\<forall>j \<in> set vs. b_refcnt (bf s j) \<noteq> 0) \<and>
         bget_find dev blockno s = Ok (i, upd_buf i (\<lambda>b. b\<lparr>b_dev := dev, b_blockno := blockno, b_valid := 0, b_refcnt := 1\<rparr>) s))) \<and>
    ((\<forall>i < NBUF. \<not> holds dev blockno (bf s i) \<and> b_refcnt (bf s i) \<noteq> 0) \<longrightarrow>
      bget_find dev blockno s = Panic ''bget: no buffers'')"
proof -
  note ok = cache_run_ok [OF assms(1)]
  have bs: "set bs = {..<NBUF}" using ok by (simp add: cache_ok_def)
  have miss: "\<exists>i us vs. bs = us @ i # vs \<and> b_refcnt (bf s i) = 0 \<and> (\<forall>j \<in> set vs. b_refcnt (bf s j) \<noteq> 0) \<and>
      bget_find dev blockno s = Ok (i, upd_buf i (\<lambda>b. b\<lparr>b_dev := dev, b_blockno := blockno, b_valid := 0, b_refcnt := 1\<rparr>) s)"
    if m: "\<forall>i < NBUF. \<not> holds dev blockno (bf s i)" and f: "\<exists>i < NBUF. b_refcnt (bf s i) = 0"
  proof -
    have "find (\<lambda>i. b_refcnt (bf s i) = 0) (rev bs) \<noteq> None" using f bs by (auto simp: find_None_iff)
    then obtain i where i: "find (\<lambda>i. b_refcnt (bf s i) = 0) (rev bs) = Some i" by blast
    obtain us vs where "rev bs = us @ i # vs" "b_refcnt (bf s i) = 0" "\<forall>j \<in> set us. b_refcnt (bf s j) \<noteq> 0"
      using find_SomeD [OF i] by blast
    then have "bs = rev vs @ i # rev us" by (simp add: rev_eq_append_conv)
    then show ?thesis
      using bget_find_miss [OF ok m] i \<open>b_refcnt (bf s i) = 0\<close> \<open>\<forall>j \<in> set us. b_refcnt (bf s j) \<noteq> 0\<close>
      by (intro exI [of _ i] exI [of _ "rev vs"] exI [of _ "rev us"]) simp
  qed
  have "bget_find dev blockno s = Panic ''bget: no buffers''"
    if "\<forall>i < NBUF. \<not> holds dev blockno (bf s i) \<and> b_refcnt (bf s i) \<noteq> 0"
  proof -
    have "find (\<lambda>i. b_refcnt (bf s i) = 0) (rev bs) = None" using that bs by (auto simp: find_None_iff)
    then show ?thesis using bget_find_miss [OF ok] that by simp
  qed
  then show ?thesis using miss bget_find_hit [OF ok _ _ assms(2)] by blast
qed

theorem bget_find_lru_witness:
  "\<exists>i s'. bget_find 1 5 (binit (boot_kst idle_machine)) = Ok (i, s') \<and> b_blockno (bf s' i) = 5"
proof -
  let ?s = "binit (boot_kst idle_machine)"
  have z: "b_dev (bf (boot_kst idle_machine) i) = 0" "b_refcnt (bf (boot_kst idle_machine) i) = 0" for i
    by (simp_all add: boot_kst_def zero_fs_def)
  have c: "cache_run ?s (rev [0..<NBUF])" by (rule cache_run.started) (simp add: z)
  have m: "\<forall>i < NBUF. \<not> holds 1 5 (bf ?s i)" by (simp add: binit_fields z)
  have f: "\<exists>i < NBUF. b_refcnt (bf ?s i) = 0" by (rule exI [of _ 0]) (simp add: binit_fields z)
  obtain i where
    "bget_find 1 5 ?s = Ok (i, upd_buf i (\<lambda>b. b\<lparr>b_dev := 1, b_blockno := 5, b_valid := 0, b_refcnt := 1\<rparr>) ?s)"
    using bget_find_lru [OF c one_neq_zero, of 5, THEN conjunct2, THEN conjunct1, THEN mp, OF m, THEN mp, OF f] by blast
  then show ?thesis by (intro exI conjI, assumption) simp
qed

end
