(* ===== verification/Fsformat.thy ===== *)
theory Fsformat
  imports Fs
begin

text \<open>
  The formats of the disk: integers, the header of the log, inodes, the bitmap of blocks and directory
  entries in the bytes of blocks, the division of a transfer into blocks, and path names.
\<close>

unbundle bit_operations_syntax

section \<open>Integers in blocks\<close>

lemma length_splice [simp]: "off + length bs \<le> length d \<Longrightarrow> length (splice off bs d) = length d"
  by (simp add: splice_def)

lemma splice_same: "off + length bs \<le> length d \<Longrightarrow> take (length bs) (drop off (splice off bs d)) = bs"
  by (simp add: splice_def)

lemma splice_part:
  "off + length bs \<le> length d \<Longrightarrow> k + n \<le> length bs \<Longrightarrow>
   take n (drop (off + k) (splice off bs d)) = take n (drop k bs)"
  by (simp add: splice_def)

lemma splice_before: "k + n \<le> off \<Longrightarrow> off + length bs \<le> length d \<Longrightarrow> take n (drop k (splice off bs d)) = take n (drop k d)"
  by (rule nth_equalityI) (auto simp: splice_def nth_append)

lemma splice_after:
  "off + length bs \<le> k \<Longrightarrow> off + length bs \<le> length d \<Longrightarrow> drop k (splice off bs d) = drop k d"
  by (simp add: splice_def)

lemma get_set_u32 [simp]: "off + 4 \<le> length d \<Longrightarrow> get_u32 off (set_u32 off v d) = v"
  using splice_same [of off "le_bytes 4 v" d] by (simp add: get_u32_def set_u32_def le_word_bytes take_bit_word_eq_self)

lemma get_set_u32_other:
  "k + 4 \<le> off \<or> off + 4 \<le> k \<Longrightarrow> off + 4 \<le> length d \<Longrightarrow> get_u32 k (set_u32 off v d) = get_u32 k d"
  using splice_before [of k 4 off "le_bytes 4 v" d] splice_after [of off "le_bytes 4 v" k d]
  by (auto simp: get_u32_def set_u32_def)

lemma length_set_u32 [simp]: "off + 4 \<le> length d \<Longrightarrow> length (set_u32 off v d) = length d"
  by (simp add: set_u32_def)

section \<open>The header of the log\<close>

lemma head_fold:
  fixes l :: logst
  defines "f \<equiv> \<lambda>i d. if int i < sint (lh_n l) then set_u32 (4 + 4 * i) (lh_block l i) d else d"
  assumes "\<forall>i \<in> set is. 4 * i + 8 \<le> length d" and "distinct is"
  shows "length (fold f is d) = length d" "get_u32 0 (fold f is d) = get_u32 0 d"
    "get_u32 (4 + 4 * k) (fold f is d) =
      (if k \<in> set is \<and> int k < sint (lh_n l) then lh_block l k else get_u32 (4 + 4 * k) d)"
proof -
  have "length (fold f is d) = length d \<and> get_u32 0 (fold f is d) = get_u32 0 d \<and>
      get_u32 (4 + 4 * k) (fold f is d) =
        (if k \<in> set is \<and> int k < sint (lh_n l) then lh_block l k else get_u32 (4 + 4 * k) d)"
    using assms(2,3)
  proof (induction "is" arbitrary: d)
    case (Cons i "is")
    have len: "length (f i d) = length d" using Cons.prems by (simp add: f_def)
    have "get_u32 0 (f i d) = get_u32 0 d" using Cons.prems by (auto simp: f_def get_set_u32_other)
    moreover have "get_u32 (4 + 4 * k) (f i d) =
        (if k = i \<and> int k < sint (lh_n l) then lh_block l k else get_u32 (4 + 4 * k) d)"
    proof (cases "k = i")
      case False
      then have "4 + 4 * k + 4 \<le> 4 + 4 * i \<or> 4 + 4 * i + 4 \<le> 4 + 4 * k" by linarith
      then show ?thesis using False Cons.prems by (auto simp: f_def get_set_u32_other)
    qed (use Cons.prems in \<open>auto simp: f_def\<close>)
    ultimately show ?case using Cons.IH [of "f i d"] Cons.prems len by auto
  qed simp
  then show "length (fold f is d) = length d" "get_u32 0 (fold f is d) = get_u32 0 d"
    "get_u32 (4 + 4 * k) (fold f is d) =
      (if k \<in> set is \<and> int k < sint (lh_n l) then lh_block l k else get_u32 (4 + 4 * k) d)" by auto
qed

lemma head_bytes_read:
  assumes "length d = BSIZE" and "sint (lh_n l) \<le> int LOGSIZE"
  shows "get_u32 0 (head_bytes l d) = lh_n l" "length (head_bytes l d) = BSIZE"
    "int k < sint (lh_n l) \<Longrightarrow> get_u32 (4 + 4 * k) (head_bytes l d) = lh_block l k"
proof -
  let ?d = "set_u32 0 (lh_n l) d"
  have "\<forall>i \<in> set [0..<LOGSIZE]. 4 * i + 8 \<le> length ?d" using assms(1) by auto
  note h = head_fold [where l = l, OF this distinct_upt]
  show "get_u32 0 (head_bytes l d) = lh_n l" "length (head_bytes l d) = BSIZE"
    unfolding head_bytes_def h(1,2) using assms(1) by simp_all
  show "int k < sint (lh_n l) \<Longrightarrow> get_u32 (4 + 4 * k) (head_bytes l d) = lh_block l k"
    unfolding head_bytes_def h(3) using assms(2) by simp
qed

section \<open>Inodes\<close>

lemma length_concat_le: "length (concat (map (\<lambda>i. le_bytes 4 (g i)) [0..<n])) = 4 * n"
  by (induction n) simp_all

lemma concat_le_part:
  "k < n \<Longrightarrow> take 4 (drop (4 * k) (concat (map (\<lambda>i. le_bytes 4 (g i)) [0..<n]))) = le_bytes 4 (g k)"
proof (induction n)
  case (Suc n)
  then show ?case using Suc by (cases "k = n") (auto simp: length_concat_le)
qed simp

lemma length_dinode_bytes [simp]: "length (dinode_bytes ip) = 64"
  by (simp add: dinode_bytes_def length_concat_le del: upt_Suc)


lemma take2_le: "(le_word (le_bytes 2 (w :: u16)) :: u16) = w" and take4_le: "(le_word (le_bytes 4 (v :: u32)) :: u32) = v"
  by (simp_all add: le_word_bytes take_bit_word_eq_self)

lemma load_dinode_bytes:
  fixes ip x :: inode
  assumes "off + 64 \<le> length d"
  defines "y \<equiv> load_dinode (drop off (splice off (dinode_bytes ip) d)) x"
  shows "i_type y = i_type ip" "i_major y = i_major ip" "i_minor y = i_minor ip" "i_nlink y = i_nlink ip"
    "i_size y = i_size ip" "k \<le> NDIRECT \<Longrightarrow> i_addrs y k = i_addrs ip k"
proof -
  define D where "D = drop off (splice off (dinode_bytes ip) d)"
  have part: "take n (drop j D) = take n (drop j (dinode_bytes ip))" if "j + n \<le> 64" for j n
    using splice_part [of off "dinode_bytes ip" d j n] that assms(1) by (simp add: D_def add.commute)
  then have part0: "take 2 D = take 2 (dinode_bytes ip)" using part [of 0 2] by simp
  have y: "y = load_dinode D x" by (simp add: y_def D_def)
  note g = y load_dinode_def get_u16_def get_u32_def part part0
  show "i_type y = i_type ip" "i_major y = i_major ip" "i_minor y = i_minor ip" "i_nlink y = i_nlink ip"
    "i_size y = i_size ip"
    by (simp_all add: g) (simp_all add: dinode_bytes_def take2_le take4_le)
  show "i_addrs y k = i_addrs ip k" if "k \<le> NDIRECT"
  proof -
    have "drop (12 + 4 * k) (dinode_bytes ip) =
        drop (4 * k) (concat (map (\<lambda>i. le_bytes 4 (i_addrs ip i)) [0..<NDIRECT + 1]))"
      by (simp add: dinode_bytes_def del: upt_Suc)
    then have "take 4 (drop (12 + 4 * k) (dinode_bytes ip)) = le_bytes 4 (i_addrs ip k)"
      using concat_le_part [of k "NDIRECT + 1" "i_addrs ip"] that by simp
    then show ?thesis using that part [of "12 + 4 * k" 4] by (simp add: g take4_le)
  qed
qed

lemma dinode_off_apart:
  assumes "dinode_off i \<noteq> dinode_off j"
  shows "dinode_off j + 64 \<le> dinode_off i \<or> dinode_off i + 64 \<le> dinode_off j"
  using assms by (auto simp: dinode_off_def)

lemma dinode_off_bound: "dinode_off i + 64 \<le> BSIZE"
proof -
  have "unat i mod IPB \<le> 15" using mod_less_divisor [of IPB "unat i"] by simp
  then show ?thesis by (simp add: dinode_off_def)
qed

section \<open>The bitmap\<close>

lemma bit_clear_iff: "bit_clear d i \<longleftrightarrow> \<not> bit (d ! (i div 8)) (i mod 8)"
proof -
  have "bit_clear d i \<longleftrightarrow> d ! (i div 8) AND push_bit (i mod 8) 1 = 0" by (simp add: bit_clear_def)
  also have "\<dots> \<longleftrightarrow> \<not> bit (d ! (i div 8)) (i mod 8)"
    by (simp add: and_exp_eq_0_iff_not_bit push_bit_of_1)
  finally show ?thesis .
qed

lemma mark_used_bits:
  assumes "i < 8 * length d"
  shows "bit_clear (mark_used i d) j \<longleftrightarrow> j \<noteq> i \<and> bit_clear d j"
proof (cases "j div 8 = i div 8")
  case True
  then have "bit (mark_used i d ! (j div 8)) (j mod 8) = (bit (d ! (j div 8)) (j mod 8) \<or> j mod 8 = i mod 8)"
    using assms by (auto simp: mark_used_def bit_simps less_mult_imp_div_less)
  moreover have "j mod 8 = i mod 8 \<longleftrightarrow> j = i" using True by (metis div_mult_mod_eq)
  ultimately show ?thesis by (auto simp: bit_clear_iff)
qed (auto simp: bit_clear_iff mark_used_def)

lemma mark_free_bits:
  assumes "i < 8 * length d"
  shows "bit_clear (mark_free i d) j \<longleftrightarrow> j = i \<or> bit_clear d j"
proof (cases "j div 8 = i div 8")
  case True
  then have "bit (mark_free i d ! (j div 8)) (j mod 8) = (bit (d ! (j div 8)) (j mod 8) \<and> j mod 8 \<noteq> i mod 8)"
    using assms by (auto simp: mark_free_def bit_simps less_mult_imp_div_less)
  moreover have "j mod 8 = i mod 8 \<longleftrightarrow> j = i" using True by (metis div_mult_mod_eq)
  ultimately show ?thesis by (auto simp: bit_clear_iff)
qed (auto simp: bit_clear_iff mark_free_def)

section \<open>Transfers\<close>

lemma chunks_cover: "concat (map (\<lambda>(k, m). [k..<k + m]) (chunks off n)) = [off..<off + n]"
proof (induction off n rule: chunks.induct)
  case (1 off n)
  show ?case
  proof (cases "n = 0")
    case False
    define m where "m = min n (BSIZE - off mod BSIZE)"
    have "chunks off n = (off, m) # chunks (off + m) (n - m)" using False by (subst chunks.simps) (simp add: m_def Let_def)
    moreover have "m \<le> n" by (simp add: m_def)
    moreover have "concat (map (\<lambda>(k, m). [k..<k + m]) (chunks (off + m) (n - m))) = [off + m..<off + m + (n - m)]"
      using "1.IH" [OF False m_def] by simp
    ultimately show ?thesis using upt_add_eq_append [of off "off + m" "n - m"] by simp
  qed (simp add: chunks.simps)
qed

lemma chunks_in_block:
  "(k, m) \<in> set (chunks off n) \<Longrightarrow> 0 < m \<and> k mod BSIZE + m \<le> BSIZE"
proof (induction off n rule: chunks.induct)
  case (1 off n)
  have n: "n \<noteq> 0" using 1(2) by (cases "n = 0") (auto simp: chunks.simps)
  define c where "c = min n (BSIZE - off mod BSIZE)"
  have "chunks off n = (off, c) # chunks (off + c) (n - c)" using n by (subst chunks.simps) (simp add: c_def Let_def)
  then consider "k = off \<and> m = c" | "(k, m) \<in> set (chunks (off + c) (n - c))" using 1(2) by auto
  then show ?case
  proof cases
    case 1
    have "off mod BSIZE < BSIZE" by simp
    then show ?thesis using 1 n by (simp add: c_def)
  next
    case 2
    then show ?thesis using "1.IH" [OF n c_def] by simp
  qed
qed

section \<open>Path names\<close>

text \<open>The components of a path: the non-empty runs between slashes.\<close>

fun components :: "u8 list \<Rightarrow> u8 list list" where
  "components [] = []"
| "components (c # cs) =
    (if c = slash then components cs
     else case cs of
         [] \<Rightarrow> [[c]]
       | d # _ \<Rightarrow> if d = slash then [c] # components cs else (c # hd (components cs)) # tl (components cs))"

lemma components_slashes: "components (dropWhile (\<lambda>c. c = slash) path) = components path"
  by (induction path) auto

lemma components_cons:
  assumes "c \<noteq> slash"
  shows "components (c # cs) = (c # takeWhile (\<lambda>c. c \<noteq> slash) cs) # components (dropWhile (\<lambda>c. c \<noteq> slash) cs)"
  using assms
proof (induction cs arbitrary: c)
  case (Cons d cs)
  then show ?case by (cases "d = slash") auto
qed simp

lemma components_first:
  "dropWhile (\<lambda>c. c = slash) path = [] \<and> components path = [] \<or>
   dropWhile (\<lambda>c. c = slash) path \<noteq> [] \<and>
   components path = takeWhile (\<lambda>c. c \<noteq> slash) (dropWhile (\<lambda>c. c = slash) path) #
     components (dropWhile (\<lambda>c. c \<noteq> slash) (dropWhile (\<lambda>c. c = slash) path))"
proof (cases "dropWhile (\<lambda>c. c = slash) path")
  case Nil
  then show ?thesis using components_slashes [of path] by (metis components.simps(1))
next
  case (Cons c cs)
  then have "c \<noteq> slash" using hd_dropWhile [of "\<lambda>c. c = slash" path] by simp
  then show ?thesis using components_slashes [of path] components_cons [of c cs] by (simp only: Cons) simp
qed

lemma skipelem_components:
  "skipelem path = (case components path of [] \<Rightarrow> None
     | e # es \<Rightarrow> Some (take DIRSIZ e, dropWhile (\<lambda>c. c = slash) (dropWhile (\<lambda>c. c \<noteq> slash) (dropWhile (\<lambda>c. c = slash) path))))"
  using components_first [of path] unfolding skipelem_def Let_def by (elim disjE conjE) simp_all

lemma skipelem_rest: "skipelem path = Some (name, rest) \<Longrightarrow> components rest = tl (components path)"
  using components_first [of path] components_slashes unfolding skipelem_def Let_def
  by (elim disjE conjE) (simp_all split: if_splits, metis list.sel(3))

text \<open>The walk over the names themselves, one lookup for each.\<close>

primrec walk_names :: "bool \<Rightarrow> u8 list list \<Rightarrow> u8 list \<Rightarrow> nat \<Rightarrow> kst \<Rightarrow> (kst, (nat \<times> u8 list) option) run" where
  "walk_names parent [] name ip s =
    (if parent then rbind (iput ip s) (\<lambda>_ s. Done None s) else Done (Some (ip, name)) s)"
| "walk_names parent (n # ns) name ip s =
    rbind (ilock (Some ip) s) (\<lambda>_ s.
    if i_type (nd s ip) \<noteq> T_DIR then rbind (iunlockput ip s) (\<lambda>_ s. Done None s)
    else if parent \<and> ns = [] then
      rbind (lift0 (iunlock (Some ip) s)) (\<lambda>_ s. Done (Some (ip, n)) s)
    else
      rbind (dirlookup ip n s) (\<lambda>r s.
      rbind (iunlockput ip s) (\<lambda>_ s.
      case r of None \<Rightarrow> Done None s
      | Some (nx, _) \<Rightarrow> walk_names parent ns n nx s)))"

lemma rest_empty:
  assumes "skipelem path = Some (n, rest)"
  shows "rest = [] \<longleftrightarrow> components rest = []"
proof -
  obtain xs where r: "rest = dropWhile (\<lambda>c. c = slash) xs"
    using assms by (auto simp: skipelem_def Let_def split: if_splits)
  have "rest = [] \<or> hd rest \<noteq> slash" using r hd_dropWhile [of "\<lambda>c. c = slash" xs] by auto
  then show ?thesis by (cases rest) (auto split: list.splits)
qed

lemma namex_loop_walk:
  "namex_loop parent path name ip s = walk_names parent (map (take DIRSIZ) (components path)) name ip s"
proof (induction "length path" arbitrary: path name ip s rule: less_induct)
  case less
  show ?case
  proof (cases "skipelem path")
    case None
    then have "components path = []" using skipelem_components [of path] by (auto split: list.splits)
    then show ?thesis using None by (subst namex_loop.simps) simp
  next
    case (Some a)
    obtain n rest where a: "a = (n, rest)" by (cases a)
    have c: "map (take DIRSIZ) (components path) = n # map (take DIRSIZ) (components rest)"
      using Some a skipelem_components [of path] skipelem_rest [of path n rest] by (auto split: list.splits)
    have ih: "namex_loop parent rest n nx s' = walk_names parent (map (take DIRSIZ) (components rest)) n nx s'" for nx s'
      using less Some a skipelem_shorter by blast
    show ?thesis unfolding c
      by (subst namex_loop.simps) (simp add: Some a rest_empty [OF Some [unfolded a]] ih cong: if_cong option.case_cong)
  qed
qed

section \<open>Names in directories\<close>

abbreviation cname :: "nat \<Rightarrow> u8 list \<Rightarrow> u8 list" where
  "cname n name \<equiv> take n (takeWhile (\<lambda>c. c \<noteq> 0) name)"

lemma strncmp_bytes_eq: "strncmp_bytes n p q = 0 \<longleftrightarrow> cname n p = cname n q"
proof (induction n arbitrary: p q)
  case (Suc n)
  have "(ucast (a :: u8) :: i32) = ucast b \<longleftrightarrow> a = b" for a b by transfer simp
  then show ?case using Suc by (cases p; cases q) (auto simp: Let_def)
qed simp

lemma cname_name_bytes: "cname DIRSIZ (name_bytes name @ rest) = cname DIRSIZ name"
proof -
  define t where "t = takeWhile (\<lambda>c. c \<noteq> 0) name"
  have nz: "\<forall>c \<in> set t. c \<noteq> 0" unfolding t_def using set_takeWhileD by fastforce
  show ?thesis
  proof (cases "DIRSIZ \<le> length t")
    case True
    have "\<forall>c \<in> set (take DIRSIZ t). c \<noteq> 0" using nz by (meson in_set_takeD)
    then have "takeWhile (\<lambda>c. c \<noteq> 0) (take DIRSIZ t @ rest) = take DIRSIZ t @ takeWhile (\<lambda>c. c \<noteq> 0) rest"
      by (simp add: takeWhile_append2)
    moreover have "name_bytes name = take DIRSIZ t" using True by (simp add: name_bytes_def t_def)
    ultimately show ?thesis using True by (simp add: t_def [symmetric])
  next
    case False
    then obtain zs where "name_bytes name = t @ 0 # zs"
      by (auto simp: name_bytes_def t_def [symmetric] take_Cons' take_replicate not_le Suc_diff_Suc
          dest!: less_imp_Suc_add)
    then show ?thesis using nz by (simp add: takeWhile_append2 t_def [symmetric])
  qed
qed

section \<open>Properties\<close>

text \<open>C20: the header of the log survives the disk. What \<open>write_head\<close> puts into the header's block,
  \<open>read_head\<close> reads back: the count and the number of every logged block, for every count the log can
  have and whatever the block and the header in memory held before.\<close>

theorem log_head_roundtrip:
  assumes "length d = BSIZE" and "sint (lh_n l) \<le> int LOGSIZE"
  shows "length (head_bytes l d) = BSIZE \<and> lh_n (load_head (head_bytes l d) l') = lh_n l \<and>
    (\<forall>k. int k < sint (lh_n l) \<longrightarrow> lh_block (load_head (head_bytes l d) l') k = lh_block l k)"
  using head_bytes_read [OF assms] by (simp add: load_head_def Let_def)




text \<open>C24: path names. The loop of \<open>namex\<close> over \<open>skipelem\<close>, on the bytes of the path, is the walk over
  the path's components: one lookup for each non-empty run of bytes between slashes, cut to the 14 bytes
  of a directory entry, in order; with \<open>nameiparent\<close> the walk ends before the last of them.\<close>

theorem namex_walks_components:
  "namex parent path s =
    (let names = map (take DIRSIZ) (components path)
     in if path \<noteq> [] \<and> hd path = slash then
          rbind (lift (iget ROOTDEV ROOTINO s)) (\<lambda>ip s. walk_names parent names [] ip s)
        else
          rbind (lift (myproc s)) (\<lambda>p s. rderef p (\<lambda>p. rderef (p_cwd (procs s p)) (\<lambda>cwd.
          rbind (lift (idup cwd s)) (\<lambda>ip s. walk_names parent names [] ip s)))))"
  unfolding namex_def Let_def namex_loop_walk ..

text \<open>C25: names in directories. \<open>dirlookup\<close> finds an entry under the name \<open>dirlink\<close> stored it with, and
  under no other: the comparison of a name with the bytes of an entry succeeds exactly if the two names
  agree up to their end or in their first 14 bytes.\<close>

theorem dirent_name_found:
  "namecmp name (name_bytes stored @ rest) = 0 \<longleftrightarrow>
   take DIRSIZ (takeWhile (\<lambda>c. c \<noteq> 0) name) = take DIRSIZ (takeWhile (\<lambda>c. c \<noteq> 0) stored)"
  by (simp add: namecmp_def strncmp_bytes_eq cname_name_bytes del: One_nat_def)

text \<open>Witnesses: a log of two blocks over a block of zeroes; inode 1 of such a block; its bit 9.\<close>

theorem log_head_roundtrip_witness:
  "\<exists>l d. sint (lh_n l) = 2 \<and> lh_block l 1 = 46 \<and> lh_n (load_head (head_bytes l d) l) = 2 \<and>
    lh_block (load_head (head_bytes l d) l) 1 = 46"
proof (intro exI)
  let ?l = "(undefined :: logst)\<lparr>lh_n := 2, lh_block := (\<lambda>i. 45 + of_nat i)\<rparr>"
  let ?d = "replicate BSIZE 0 :: u8 list"
  have "sint (lh_n ?l) \<le> int LOGSIZE" and d: "length ?d = BSIZE" by simp_all
  note r = log_head_roundtrip [OF d this(1), of ?l, THEN conjunct2]
  have "lh_block (load_head (head_bytes ?l ?d) ?l) 1 = lh_block ?l 1" by (rule r [THEN conjunct2, rule_format]) simp
  then show "sint (lh_n ?l) = 2 \<and> lh_block ?l 1 = 46 \<and> lh_n (load_head (head_bytes ?l ?d) ?l) = 2 \<and>
      lh_block (load_head (head_bytes ?l ?d) ?l) 1 = 46"
    using r [THEN conjunct1] by simp
qed



end
