(* ===== verification/Spec2Isabelle.thy ===== *)
theory Spec2Isabelle
  imports Spinlock Kstring Kalloc Ucopy Ufree Trap Pipefifo Consoleline Sigsafe Sigframe Lru Fsformat
begin

text \<open>
  A verification of the xv6 kernel with signals, kernel threads and binary semaphores.
\<close>

end
